theory Spec2Isabelle
  imports Complex_Main "HOL-Library.AList"
begin

section \<open>Values, dictionaries and errors\<close>

text \<open>
  The three scripts exchange JSON-Lines files. A parsed JSON value is a \<open>json\<close>; a
  Python \<open>dict\<close> keeps its keys in insertion order, so it is an association list, and
  \<open>d[k] = v\<close> is \<open>AList.update\<close>: an existing key keeps its place, a new key goes
  to the end. Isabelle characters are 8-bit, so a \<open>string\<close> stands for a Python
  \<open>str\<close> whose code points are below 256.
\<close>

datatype json =
    JNull
  | JBool bool
  | JInt int
  | JFloat real
  | JStr string
  | JList "json list"
  | JObj "(string \<times> json) list"

type_synonym pydict = "(string \<times> json) list"

datatype py_error = JSONDecodeError | AttributeError | TypeError | KeyError | OverflowError

datatype outcome = Returned | Raised py_error

text \<open>\<open>d.get(k, default)\<close>\<close>

definition dict_get :: "pydict \<Rightarrow> string \<Rightarrow> json \<Rightarrow> json" where
  "dict_get d k dflt = (case map_of d k of None \<Rightarrow> dflt | Some v \<Rightarrow> v)"

text \<open>\<open>d[k] = v\<close>\<close>

definition dict_setitem :: "string \<Rightarrow> json \<Rightarrow> pydict \<Rightarrow> pydict" where
  "dict_setitem k v d = AList.update k v d"

text \<open>Python truthiness of a value (\<open>x if body else y\<close>, \<open>a or b\<close>).\<close>

fun truthy :: "json \<Rightarrow> bool" where
  "truthy JNull = False"
| "truthy (JBool b) = b"
| "truthy (JInt i) = (i \<noteq> 0)"
| "truthy (JFloat r) = (r \<noteq> 0)"
| "truthy (JStr s) = (s \<noteq> [])"
| "truthy (JList xs) = (xs \<noteq> [])"
| "truthy (JObj d) = (d \<noteq> [])"

text \<open>\<open>x[:50]\<close> is defined on strings and lists and raises \<open>TypeError\<close> elsewhere.\<close>

fun sliceable :: "json \<Rightarrow> bool" where
  "sliceable (JStr s) = True"
| "sliceable (JList xs) = True"
| "sliceable v = False"

fun is_str :: "json \<Rightarrow> bool" where
  "is_str (JStr s) = True"
| "is_str v = False"

text \<open>
  \<open>', '.join(x[:3])\<close>: the slice needs a string or a list, and \<open>join\<close> raises
  \<open>TypeError\<close> on an item that is not a string (the items of a string are strings).
\<close>

fun join_first3_ok :: "json \<Rightarrow> bool" where
  "join_first3_ok (JList xs) = list_all is_str (take 3 xs)"
| "join_first3_ok (JStr s) = True"
| "join_first3_ok v = False"

text \<open>
  \<open>str.isspace\<close> on the code points below 256, and the truth value of
  \<open>line.strip()\<close>: a line is kept when some character of it is not white space.
\<close>

definition py_isspace :: "char \<Rightarrow> bool" where
  "py_isspace c =
     (let n = (of_char c :: nat)
      in (9 \<le> n \<and> n \<le> 13) \<or> (28 \<le> n \<and> n \<le> 32) \<or> n = 133 \<or> n = 160)"

definition nonblank :: "string \<Rightarrow> bool" where
  "nonblank line = list_ex (\<lambda>c. \<not> py_isspace c) line"

section \<open>The Enricher (llm.py)\<close>

text \<open>
  What the classification call \<open>client.responses.parse\<close> gives back: it raises, or
  \<open>response.output_parsed\<close> has the four attributes read by \<open>analyze_post\<close>. Python
  does not check the annotations of \<open>PostAnalysis\<close> when the attributes are read, so
  each attribute is any value. (A response without these attributes raises
  \<open>AttributeError\<close> that the handler of \<open>analyze_post\<close> catches: the case \<open>Raises\<close>.)
\<close>

datatype llm_response =
    Raises
  | Parsed (p_category: json) (p_sentiment: json) (p_keywords: json) (p_description: json)

text \<open>
  The library and the service are parameters of the model: \<open>json.loads\<close> (\<open>None\<close>
  when it raises), \<open>json.dumps(\<dots>, ensure_ascii=False)\<close>, the text an f-string puts
  for a value that is not a string, and the classification service, which answers
  its \<open>n\<close>-th request (counted from 0) with user message \<open>m\<close> by \<open>client n m\<close>.
\<close>

record enricher_env =
  json_loads :: "string \<Rightarrow> json option"
  json_dumps :: "json \<Rightarrow> string"
  py_str :: "json \<Rightarrow> string"
  client :: "nat \<Rightarrow> string \<Rightarrow> llm_response"

text \<open>
  The state the Enricher acts on: the two files (\<open>None\<close>: the file does not exist;
  otherwise its lines, without the line terminator), the user messages sent to the
  service so far, and the number of one-second pauses taken. Console output is not
  part of the state; a \<open>print\<close> whose argument can raise is modelled by the raise.
\<close>

record world =
  input_file :: "string list option"
  output_file :: "string list option"
  requests :: "string list"
  sleeps :: nat

definition fmt :: "enricher_env \<Rightarrow> json \<Rightarrow> string" where
  "fmt env v = (case v of JStr s \<Rightarrow> s | _ \<Rightarrow> py_str env v)"

definition valid_categories :: "json list" where
  "valid_categories = [JStr ''campus_life'', JStr ''academics'', JStr ''admissions'']"

definition valid_sentiments :: "json list" where
  "valid_sentiments = [JStr ''positive'', JStr ''negative'', JStr ''neutral'']"

fun is_list :: "json \<Rightarrow> bool" where
  "is_list (JList xs) = True"
| "is_list v = False"

definition default_analysis :: pydict where
  "default_analysis =
     [(''category'', JStr ''campus_life''),
      (''sentiment'', JStr ''neutral''),
      (''keywords'', JList []),
      (''description'', JStr ''Error during analysis'')]"

definition user_message :: "enricher_env \<Rightarrow> json \<Rightarrow> json \<Rightarrow> string" where
  "user_message env title body =
     ''Analyse the post content: '' @ ''Title: '' @ fmt env title @ [CHR 0x0A] @ ''Body: '' @
       (if truthy body then fmt env body else ''[No body text]'')"

text \<open>
  \<open>analyze_post\<close>, given the number \<open>n\<close> of requests made before this one. Every
  exception is caught by the handler, which returns the default analysis.
\<close>

definition analyze_post :: "enricher_env \<Rightarrow> nat \<Rightarrow> json \<Rightarrow> json \<Rightarrow> pydict" where
  "analyze_post env n title body =
     (case client env n (user_message env title body) of
        Raises \<Rightarrow> default_analysis
      | Parsed c s k d \<Rightarrow>
          (let analysis = [(''category'', c), (''sentiment'', s), (''keywords'', k), (''description'', d)];
               analysis = (if c \<notin> set valid_categories
                           then dict_setitem ''category'' (JStr ''campus_life'') analysis
                           else analysis);
               analysis = (if s \<notin> set valid_sentiments
                           then dict_setitem ''sentiment'' (JStr ''neutral'') analysis
                           else analysis);
               analysis = (if \<not> is_list k
                           then dict_setitem ''keywords'' (JList []) analysis
                           else analysis)
           in analysis))"

text \<open>The lines of a file opened for appending: a missing file is created empty.\<close>

definition file_lines :: "string list option \<Rightarrow> string list" where
  "file_lines f = (case f of None \<Rightarrow> [] | Some ls \<Rightarrow> ls)"

text \<open>
  The post with the analysis fields set, as the loop body of \<open>enrich_posts\<close> sets
  them; \<open>None\<close> when \<open>analysis[k]\<close> raises \<open>KeyError\<close>.
\<close>

definition add_analysis :: "pydict \<Rightarrow> pydict \<Rightarrow> pydict option" where
  "add_analysis analysis post =
     (case (map_of analysis ''category'', map_of analysis ''sentiment'', map_of analysis ''keywords'') of
        (Some c, Some s, Some k) \<Rightarrow>
          (let post = dict_setitem ''category'' c post;
               post = dict_setitem ''sentiment'' s post;
               post = dict_setitem ''keywords'' k post
           in Some (case map_of analysis ''description'' of
                      None \<Rightarrow> post
                    | Some d \<Rightarrow> dict_setitem ''llm_description'' d post))
      | _ \<Rightarrow> None)"

text \<open>
  One iteration of the loop of \<open>enrich_posts\<close>, for the \<open>i\<close>-th of \<open>n_posts\<close> posts
  (\<open>i\<close> counts from 1): the new state, and whether the iteration raised.
\<close>

definition enrich_one :: "enricher_env \<Rightarrow> nat \<Rightarrow> nat \<Rightarrow> json \<Rightarrow> world \<Rightarrow> world \<times> outcome" where
  "enrich_one env n_posts i post w =
     (case post of
        JObj d \<Rightarrow>
          (let title = dict_get d ''title'' (JStr []);
               body = dict_get d ''selftext'' (JStr [])
           in if \<not> sliceable title then (w, Raised TypeError)
              else
                (let analysis = analyze_post env (length (requests w)) title body;
                     w = w\<lparr>requests := requests w @ [user_message env title body]\<rparr>
                 in case add_analysis analysis d of
                      None \<Rightarrow> (w, Raised KeyError)
                    | Some d' \<Rightarrow>
                        (let w = w\<lparr>output_file :=
                                     Some (file_lines (output_file w) @ [json_dumps env (JObj d')])\<rparr>;
                             paused = (if i < n_posts then w\<lparr>sleeps := Suc (sleeps w)\<rparr> else w)
                         in if map_of analysis ''description'' \<noteq> Some (JStr ''Error during analysis'')
                            then (case map_of analysis ''keywords'' of
                                    None \<Rightarrow> (w, Raised KeyError)
                                  | Some k \<Rightarrow>
                                      if join_first3_ok k then (paused, Returned)
                                      else (w, Raised TypeError))
                            else (paused, Returned))))
      | _ \<Rightarrow> (w, Raised AttributeError))"

fun process_posts :: "enricher_env \<Rightarrow> nat \<Rightarrow> nat \<Rightarrow> json list \<Rightarrow> world \<Rightarrow> world \<times> outcome" where
  "process_posts env n_posts i [] w = (w, Returned)"
| "process_posts env n_posts i (post # posts) w =
     (case enrich_one env n_posts i post w of
        (w', Returned) \<Rightarrow> process_posts env n_posts (Suc i) posts w'
      | (w', Raised e) \<Rightarrow> (w', Raised e))"

text \<open>Reading the input: every line that is not blank goes through \<open>json.loads\<close>.\<close>

fun read_posts :: "enricher_env \<Rightarrow> string list \<Rightarrow> py_error + json list" where
  "read_posts env [] = Inr []"
| "read_posts env (line # lines) =
     (if nonblank line
      then (case json_loads env line of
              None \<Rightarrow> Inl JSONDecodeError
            | Some post \<Rightarrow>
                (case read_posts env lines of
                   Inl e \<Rightarrow> Inl e
                 | Inr posts \<Rightarrow> Inr (post # posts)))
      else read_posts env lines)"

definition enrich_posts :: "enricher_env \<Rightarrow> world \<Rightarrow> world \<times> outcome" where
  "enrich_posts env w =
     (case input_file w of
        None \<Rightarrow> (w, Returned)
      | Some lines \<Rightarrow>
          (case read_posts env lines of
             Inl e \<Rightarrow> (w, Raised e)
           | Inr posts \<Rightarrow>
               process_posts env (length posts) 1 posts (w\<lparr>output_file := None\<rparr>)))"

subsection \<open>What the claims about the Enricher speak of\<close>

text \<open>The analysis of a post that is the object \<open>d\<close>, when \<open>k\<close> requests were made before.\<close>

definition post_analysis :: "enricher_env \<Rightarrow> nat \<Rightarrow> pydict \<Rightarrow> pydict" where
  "post_analysis env k d =
     analyze_post env k (dict_get d ''title'' (JStr [])) (dict_get d ''selftext'' (JStr []))"

text \<open>The record the loop body writes for it.\<close>

definition enriched_record :: "enricher_env \<Rightarrow> nat \<Rightarrow> pydict \<Rightarrow> pydict option" where
  "enriched_record env k d = add_analysis (post_analysis env k d) d"

text \<open>The line written for a record.\<close>

definition dumps_record :: "enricher_env \<Rightarrow> pydict \<Rightarrow> string" where
  "dumps_record env r = json_dumps env (JObj r)"

text \<open>The fields the Enricher sets.\<close>

definition analysis_fields :: "string list" where
  "analysis_fields = [''category'', ''sentiment'', ''keywords'', ''llm_description'']"

text \<open>A record whose category and sentiment are in the enums and whose keywords are a list.\<close>

definition labels_valid :: "pydict \<Rightarrow> bool" where
  "labels_valid r =
     ((case map_of r ''category'' of None \<Rightarrow> False | Some c \<Rightarrow> c \<in> set valid_categories) \<and>
      (case map_of r ''sentiment'' of None \<Rightarrow> False | Some s \<Rightarrow> s \<in> set valid_sentiments) \<and>
      (case map_of r ''keywords'' of None \<Rightarrow> False | Some k \<Rightarrow> is_list k))"

text \<open>A small run: two posts and a blank line; the first classification call raises, the
  second answers with a category outside the enum and keywords that are not a list.\<close>

definition demo_post :: pydict where
  "demo_post =
     [(''id'', JStr ''abc123''), (''title'', JStr ''Hostel food is terrible''),
      (''selftext'', JStr []), (''created_utc'', JFloat 1700000000)]"

text \<open>
  A serialiser for the demo: every field with its name, a string value as it is and any
  other value by its kind.
\<close>

definition demo_dumps :: "json \<Rightarrow> string" where
  "demo_dumps v =
     (case v of
        JObj d \<Rightarrow>
          concat (map (\<lambda>(k, x). k @ ''='' @
                    (case x of JStr s \<Rightarrow> s | JNull \<Rightarrow> ''null'' | JList xs \<Rightarrow> ''list''
                     | JObj y \<Rightarrow> ''object'' | JBool b \<Rightarrow> ''bool'' | _ \<Rightarrow> ''number'') @ ''; '') d)
      | _ \<Rightarrow> [])"

definition demo_env :: enricher_env where
  "demo_env =
     \<lparr>json_loads = (\<lambda>line. if line = ''post-1'' then Some (JObj demo_post)
                           else if line = ''post-2'' then Some (JObj [(''id'', JStr ''q7'')])
                           else None),
      json_dumps = demo_dumps,
      py_str = (\<lambda>v. []),
      client = (\<lambda>n m. if n = 0 then Raises
                       else Parsed (JStr ''sports'') (JStr ''positive'') JNull (JStr ''about a match''))\<rparr>"

definition demo_world :: world where
  "demo_world =
     \<lparr>input_file = Some [''post-1'', ''  '', ''post-2''], output_file = Some [''stale''],
      requests = [], sleeps = 0\<rparr>"

definition stale_world :: world where
  "stale_world = \<lparr>input_file = None, output_file = Some [''stale''], requests = [], sleeps = 0\<rparr>"

text \<open>
  A post the loop body gets through: an object whose title can be sliced. A response
  whose keywords, when they are a list, begin with strings, as the annotation
  \<open>keywords: list[str]\<close> of \<open>PostAnalysis\<close> promises.
\<close>
definition well_formed_post :: "json \<Rightarrow> bool" where
  "well_formed_post p = (case p of JObj d \<Rightarrow> sliceable (dict_get d ''title'' (JStr [])) | _ \<Rightarrow> False)"

definition response_typed :: "llm_response \<Rightarrow> bool" where
  "response_typed r = (case r of Raises \<Rightarrow> True | Parsed c s k de \<Rightarrow> is_list k \<longrightarrow> join_first3_ok k)"

text \<open>
  The post with an answer of the service set on it as the validation policy says: a
  category or sentiment outside its enum replaced by the default, keywords that are not a
  list replaced by the empty list.
\<close>

definition coerced_record :: "json \<Rightarrow> json \<Rightarrow> json \<Rightarrow> json \<Rightarrow> pydict \<Rightarrow> pydict" where
  "coerced_record c s k de d =
     dict_setitem ''llm_description'' de
       (dict_setitem ''keywords'' (if is_list k then k else JList [])
         (dict_setitem ''sentiment'' (if s \<in> set valid_sentiments then s else JStr ''neutral'')
           (dict_setitem ''category'' (if c \<in> set valid_categories then c else JStr ''campus_life'') d)))"

text \<open>The same run started after one earlier request, so that both posts are answered.\<close>

definition demo_world_later :: world where
  "demo_world_later = demo_world\<lparr>requests := [''an earlier request'']\<rparr>"

section \<open>The Collector (scrp.py)\<close>

text \<open>
  What \<open>getattr(obj, name, default)\<close> meets: the access raises an exception, the
  attribute is missing (the default is taken), or it has a value.
\<close>

datatype 'a attr = AttrError | NoAttr | Attr 'a

text \<open>The author object of a post or comment: its \<open>name\<close> is \<open>None\<close> or a string.\<close>

datatype redditor = Redditor (name_attr: "string option attr")

text \<open>What \<open>reddit.redditor(name)\<close> answers to \<open>fetch_user_meta\<close>.\<close>

record redditor_meta =
  link_karma :: "int option attr"
  comment_karma :: "int option attr"
  account_created_utc :: "real option attr"

record comment =
  c_id :: string
  c_parent_id :: "string option"
  c_body :: string
  c_created_utc :: real
  c_score :: "int option"
  c_depth :: "int option"
  c_is_submitter :: "bool option"
  c_author :: "redditor option"

text \<open>An entry of \<open>submission.comments.list()\<close>.\<close>

datatype comment_node = MoreComments | Comment comment

record submission =
  s_id :: string
  s_title :: "string option"
  s_selftext :: "string option"
  s_url :: string
  s_created_utc :: real
  s_score :: "int option"
  s_num_comments :: "int option"
  s_author :: "redditor option"
  s_comments :: "comment_node list"

text \<open>The attributes of the subreddit; \<open>None\<close> is a missing attribute.\<close>

record subreddit =
  public_description :: "string option"
  subscribers :: "int option"
  sr_created_utc :: "real option"

text \<open>
  The services the Collector calls are parameters: the UTC calendar date in ISO format of
  a timestamp, \<open>datetime.fromtimestamp(ts, tz=timezone.utc).date().isoformat()\<close>
  (\<open>None\<close> when the timestamp is out of range and the call raises), the answer of
  \<open>reddit.redditor\<close>, the subreddit, its newest posts, and the time of the run.
\<close>

record collector_env =
  utc_date_isoformat :: "real \<Rightarrow> string option"
  reddit_redditor :: "string \<Rightarrow> redditor_meta"
  reddit_subreddit :: subreddit
  new_submissions :: "submission list"
  now_isoformat :: string

text \<open>
  The four files, each the sequence of records that \<open>write_jsonl\<close> has appended to it
  (one line per record), and the names whose metadata was requested from the service.
\<close>

record cworld =
  posts_file :: "json list"
  comments_file :: "json list"
  users_file :: "json list"
  subreddits_file :: "json list"
  lookups :: "string list"

definition SUBREDDIT_NAME :: string where
  "SUBREDDIT_NAME = ''giki''"

definition POST_LIMIT :: nat where
  "POST_LIMIT = 10"

definition iso_day :: "collector_env \<Rightarrow> real \<Rightarrow> string option" where
  "iso_day env ts_utc = utc_date_isoformat env ts_utc"

definition safe_author :: "redditor option \<Rightarrow> string option \<times> string" where
  "safe_author author =
     (case author of
        None \<Rightarrow> (None, ''[deleted]'')
      | Some a \<Rightarrow>
          (case name_attr a of
             AttrError \<Rightarrow> (None, ''[deleted]'')
           | NoAttr \<Rightarrow> (None, ''[deleted]'')
           | Attr None \<Rightarrow> (None, ''[deleted]'')
           | Attr (Some name) \<Rightarrow> (None, if name = [] then ''[deleted]'' else name)))"

text \<open>\<open>getattr(obj, name, default)\<close> on an attribute that does not raise.\<close>

definition attr_or :: "'a attr \<Rightarrow> 'a \<Rightarrow> 'a" where
  "attr_or a dflt = (case a of Attr v \<Rightarrow> v | _ \<Rightarrow> dflt)"

definition raises :: "'a attr \<Rightarrow> bool" where
  "raises a = (case a of AttrError \<Rightarrow> True | _ \<Rightarrow> False)"

text \<open>
  \<open>fetch_user_meta\<close>: the karma and creation time, and whether the service was asked.
  Any exception gives \<open>(None, None)\<close>; \<open>float(None)\<close> is one.
\<close>

definition fetch_user_meta :: "collector_env \<Rightarrow> string \<Rightarrow> cworld \<Rightarrow> (int option \<times> real option) \<times> cworld" where
  "fetch_user_meta env name w =
     (if name = [] \<or> name = ''[deleted]'' then ((None, None), w)
      else
        (let w = w\<lparr>lookups := lookups w @ [name]\<rparr>;
             redditor = reddit_redditor env name
         in if raises (link_karma redditor) \<or> raises (comment_karma redditor)
               \<or> raises (account_created_utc redditor)
            then ((None, None), w)
            else
              (let link_k = attr_or (link_karma redditor) None;
                   comment_k = attr_or (comment_karma redditor) None;
                   total_karma =
                     (if link_k \<noteq> None \<or> comment_k \<noteq> None
                      then Some ((case link_k of None \<Rightarrow> 0 | Some x \<Rightarrow> x)
                                 + (case comment_k of None \<Rightarrow> 0 | Some x \<Rightarrow> x))
                      else None)
               in case attr_or (account_created_utc redditor) (Some 0) of
                    None \<Rightarrow> ((None, None), w)
                  | Some created \<Rightarrow>
                      ((total_karma, if created = 0 then None else Some created), w))))"

definition opt_int :: "int option \<Rightarrow> json" where
  "opt_int x = (case x of None \<Rightarrow> JNull | Some i \<Rightarrow> JInt i)"

definition opt_float :: "real option \<Rightarrow> json" where
  "opt_float x = (case x of None \<Rightarrow> JNull | Some r \<Rightarrow> JFloat r)"

definition opt_str :: "string option \<Rightarrow> json" where
  "opt_str x = (case x of None \<Rightarrow> JNull | Some s \<Rightarrow> JStr s)"

text \<open>\<open>x or ""\<close> on a value that is \<open>None\<close> or a string.\<close>

definition or_empty :: "string option \<Rightarrow> string" where
  "or_empty x = (case x of None \<Rightarrow> [] | Some s \<Rightarrow> s)"

text \<open>\<open>s.split(sep, 1)\<close> for a separator of one character.\<close>

definition split_once :: "char \<Rightarrow> string \<Rightarrow> string list" where
  "split_once sep s =
     (if sep \<in> set s
      then [takeWhile (\<lambda>c. c \<noteq> sep) s, tl (dropWhile (\<lambda>c. c \<noteq> sep) s)]
      else [s])"

text \<open>\<open>c.parent_id.split("_", 1)[-1] if c.parent_id else None\<close>\<close>

definition parent_id_field :: "string option \<Rightarrow> json" where
  "parent_id_field p =
     (case p of
        None \<Rightarrow> JNull
      | Some s \<Rightarrow> if s = [] then JNull else JStr (last (split_once (CHR ''_'') s)))"

definition user_rec :: "string option \<Rightarrow> string \<Rightarrow> int option \<Rightarrow> real option \<Rightarrow> json" where
  "user_rec a_id a_name total_karma acct_created =
     JObj [(''type'', JStr ''user''),
           (''id'', JStr (case a_id of
                            None \<Rightarrow> ''name:'' @ a_name
                          | Some i \<Rightarrow> if i = [] then ''name:'' @ a_name else i)),
           (''name'', JStr a_name),
           (''total_karma'', opt_int total_karma),
           (''account_created'', opt_float acct_created)]"

definition post_rec :: "submission \<Rightarrow> string \<Rightarrow> string option \<Rightarrow> string \<Rightarrow> json" where
  "post_rec submission day a_id a_name =
     JObj [(''type'', JStr ''post''),
           (''id'', JStr (s_id submission)),
           (''subreddit'', JStr SUBREDDIT_NAME),
           (''title'', JStr (or_empty (s_title submission))),
           (''selftext'', JStr (or_empty (s_selftext submission))),
           (''url'', JStr (s_url submission)),
           (''created_utc'', JFloat (s_created_utc submission)),
           (''iso_day'', JStr day),
           (''score'', opt_int (s_score submission)),
           (''num_comments'', JInt (case s_num_comments submission of None \<Rightarrow> 0 | Some n \<Rightarrow> n)),
           (''author_id'', opt_str a_id),
           (''author_name'', JStr a_name)]"

definition comment_rec :: "string \<Rightarrow> comment \<Rightarrow> string \<Rightarrow> string option \<Rightarrow> string \<Rightarrow> json" where
  "comment_rec link c day ca_id ca_name =
     JObj [(''type'', JStr ''comment''),
           (''id'', JStr (c_id c)),
           (''parent_id'', parent_id_field (c_parent_id c)),
           (''link_id'', JStr link),
           (''body'', JStr (c_body c)),
           (''created_utc'', JFloat (c_created_utc c)),
           (''iso_day'', JStr day),
           (''score'', opt_int (c_score c)),
           (''depth'', JInt (case c_depth c of None \<Rightarrow> 0 | Some n \<Rightarrow> n)),
           (''is_submitter'', JBool (case c_is_submitter c of None \<Rightarrow> False | Some b \<Rightarrow> b)),
           (''author_id'', opt_str ca_id),
           (''author_name'', JStr ca_name)]"

text \<open>
  Writing the user row of an author, as both branches of \<open>main\<close> do it once their test
  on the name has passed: fetch the metadata, append the row, remember the name.
\<close>

definition write_user :: "collector_env \<Rightarrow> string option \<Rightarrow> string \<Rightarrow> cworld \<times> string set \<Rightarrow> cworld \<times> string set" where
  "write_user env a_id a_name st =
     (case st of (w, seen_users) \<Rightarrow>
        (case fetch_user_meta env a_name w of
           ((total_karma, acct_created), w) \<Rightarrow>
             (w\<lparr>users_file := users_file w @ [user_rec a_id a_name total_karma acct_created]\<rparr>,
              insert a_name seen_users)))"

text \<open>One entry of the comment list of a post.\<close>

definition process_comment :: "collector_env \<Rightarrow> string \<Rightarrow> comment_node \<Rightarrow> cworld \<times> string set \<Rightarrow> (cworld \<times> string set) \<times> outcome" where
  "process_comment env link node st =
     (case node of
        MoreComments \<Rightarrow> (st, Returned)
      | Comment c \<Rightarrow>
          (case st of (w, seen_users) \<Rightarrow>
             (case safe_author (c_author c) of (ca_id, ca_name) \<Rightarrow>
                (case iso_day env (c_created_utc c) of
                   None \<Rightarrow> (st, Raised OverflowError)
                 | Some day \<Rightarrow>
                     (let w = w\<lparr>comments_file := comments_file w @ [comment_rec link c day ca_id ca_name]\<rparr>
                      in if ca_name \<noteq> [] \<and> ca_name \<notin> seen_users \<and> ca_name \<noteq> ''[deleted]''
                         then (write_user env ca_id ca_name (w, seen_users), Returned)
                         else ((w, seen_users), Returned))))))"

fun process_comments :: "collector_env \<Rightarrow> string \<Rightarrow> comment_node list \<Rightarrow> cworld \<times> string set \<Rightarrow> (cworld \<times> string set) \<times> outcome" where
  "process_comments env link [] st = (st, Returned)"
| "process_comments env link (node # nodes) st =
     (case process_comment env link node st of
        (st', Returned) \<Rightarrow> process_comments env link nodes st'
      | (st', Raised e) \<Rightarrow> (st', Raised e))"

text \<open>The body of the loop over the submissions.\<close>

definition process_submission :: "collector_env \<Rightarrow> submission \<Rightarrow> cworld \<times> string set \<Rightarrow> (cworld \<times> string set) \<times> outcome" where
  "process_submission env submission st =
     (case st of (w, seen_users) \<Rightarrow>
        (case safe_author (s_author submission) of (a_id, a_name) \<Rightarrow>
           (case iso_day env (s_created_utc submission) of
              None \<Rightarrow> (st, Raised OverflowError)
            | Some day \<Rightarrow>
                (let w = w\<lparr>posts_file := posts_file w @ [post_rec submission day a_id a_name]\<rparr>;
                     st = (if a_name \<noteq> [] \<and> a_name \<notin> seen_users
                           then write_user env a_id a_name (w, seen_users)
                           else (w, seen_users))
                 in process_comments env (s_id submission) (s_comments submission) st))))"

fun process_submissions :: "collector_env \<Rightarrow> submission list \<Rightarrow> cworld \<times> string set \<Rightarrow> (cworld \<times> string set) \<times> outcome" where
  "process_submissions env [] st = (st, Returned)"
| "process_submissions env (submission # rest) st =
     (case process_submission env submission st of
        (st', Returned) \<Rightarrow> process_submissions env rest st'
      | (st', Raised e) \<Rightarrow> (st', Raised e))"

definition sub_meta :: "collector_env \<Rightarrow> json" where
  "sub_meta env =
     JObj [(''type'', JStr ''subreddit''),
           (''name'', JStr SUBREDDIT_NAME),
           (''description'', opt_str (public_description (reddit_subreddit env))),
           (''subscriber_count'', opt_int (subscribers (reddit_subreddit env))),
           (''created_utc'',
              (case sr_created_utc (reddit_subreddit env) of
                 None \<Rightarrow> JNull
               | Some t \<Rightarrow> if t = 0 then JNull else JFloat t)),
           (''fetched_at'', JStr (now_isoformat env))]"

definition main :: "collector_env \<Rightarrow> cworld \<Rightarrow> cworld \<times> outcome" where
  "main env w =
     (let w = w\<lparr>subreddits_file := subreddits_file w @ [sub_meta env]\<rparr>
      in case process_submissions env (take POST_LIMIT (new_submissions env)) (w, {}) of
           ((w, seen_users), out) \<Rightarrow> (w, out))"

subsection \<open>What the claims about the Collector speak of\<close>

text \<open>The \<open>iso_day\<close> of a record is the UTC date of its \<open>created_utc\<close>.\<close>

definition iso_day_ok :: "collector_env \<Rightarrow> json \<Rightarrow> bool" where
  "iso_day_ok env r =
     (case r of
        JObj d \<Rightarrow>
          (case (map_of d ''created_utc'', map_of d ''iso_day'') of
             (Some (JFloat t), Some (JStr day)) \<Rightarrow> utc_date_isoformat env t = Some day
           | _ \<Rightarrow> False)
      | _ \<Rightarrow> False)"

definition author_id_null :: "json \<Rightarrow> bool" where
  "author_id_null r = (case r of JObj d \<Rightarrow> map_of d ''author_id'' = Some JNull | _ \<Rightarrow> False)"

definition user_name :: "json \<Rightarrow> string" where
  "user_name r =
     (case r of
        JObj d \<Rightarrow> (case map_of d ''name'' of Some (JStr n) \<Rightarrow> n | _ \<Rightarrow> [])
      | _ \<Rightarrow> [])"

text \<open>The \<open>id\<close> of a user row is the synthetic key made of its name.\<close>

definition user_key_ok :: "json \<Rightarrow> bool" where
  "user_key_ok r =
     (case r of
        JObj d \<Rightarrow>
          (case (map_of d ''id'', map_of d ''name'') of
             (Some (JStr i), Some (JStr n)) \<Rightarrow> i = ''name:'' @ n
           | _ \<Rightarrow> False)
      | _ \<Rightarrow> False)"

text \<open>
  How a later state of the loop extends an earlier one: the files grow by records of the
  right shape, the new user rows have distinct names, none of them seen before, and the
  set of seen names grows by exactly these.
\<close>

definition extends :: "collector_env \<Rightarrow> cworld \<times> string set \<Rightarrow> cworld \<times> string set \<Rightarrow> bool" where
  "extends env st st' =
     (\<exists>ps cs us ls.
        posts_file (fst st') = posts_file (fst st) @ ps \<and>
        comments_file (fst st') = comments_file (fst st) @ cs \<and>
        users_file (fst st') = users_file (fst st) @ us \<and>
        lookups (fst st') = lookups (fst st) @ ls \<and>
        subreddits_file (fst st') = subreddits_file (fst st) \<and>
        list_all (\<lambda>r. iso_day_ok env r \<and> author_id_null r) (ps @ cs) \<and>
        list_all user_key_ok us \<and>
        distinct (map user_name us) \<and>
        set (map user_name us) \<inter> snd st = {} \<and>
        snd st' = snd st \<union> set (map user_name us) \<and>
        ''[deleted]'' \<notin> set ls)"

text \<open>A field of a written record.\<close>

definition field :: "json \<Rightarrow> string \<Rightarrow> json option" where
  "field r k = (case r of JObj d \<Rightarrow> map_of d k | _ \<Rightarrow> None)"

text \<open>
  A small run of the Collector: one post by \<open>alice\<close> with a comment by \<open>alice\<close>, a
  comment whose author is gone, a placeholder and a comment by \<open>bob\<close>.
\<close>

definition demo_comment :: "string \<Rightarrow> string option \<Rightarrow> redditor option \<Rightarrow> comment" where
  "demo_comment i parent author =
     \<lparr>c_id = i, c_parent_id = parent, c_body = ''text'', c_created_utc = 86400,
      c_score = Some 1, c_depth = None, c_is_submitter = None, c_author = author\<rparr>"

definition demo_submission :: submission where
  "demo_submission =
     \<lparr>s_id = ''p1'', s_title = Some ''Hostel food'', s_selftext = None, s_url = ''u'',
      s_created_utc = 0, s_score = Some 3, s_num_comments = None,
      s_author = Some (Redditor (Attr (Some ''alice''))),
      s_comments =
        [Comment (demo_comment ''c1'' (Some ''t3_p1'') (Some (Redditor (Attr (Some ''alice''))))),
         Comment (demo_comment ''c2'' (Some ''t1_c1'') None),
         MoreComments,
         Comment (demo_comment ''c3'' None (Some (Redditor (Attr (Some ''bob'')))))]\<rparr>"

definition demo_collector_env :: collector_env where
  "demo_collector_env =
     \<lparr>utc_date_isoformat = (\<lambda>t. if t = 0 then Some ''1970-01-01''
                                else if t = 86400 then Some ''1970-01-02'' else None),
      reddit_redditor = (\<lambda>n. \<lparr>link_karma = Attr (Some 5), comment_karma = NoAttr,
                                account_created_utc = Attr (Some 1600000000)\<rparr>),
      reddit_subreddit = \<lparr>public_description = None, subscribers = Some 10,
                          sr_created_utc = None\<rparr>,
      new_submissions = [demo_submission],
      now_isoformat = ''2026-01-01T00:00:00+00:00''\<rparr>"

definition empty_cworld :: cworld where
  "empty_cworld =
     \<lparr>posts_file = [], comments_file = [], users_file = [], subreddits_file = [], lookups = []\<rparr>"

section \<open>The schema initializer (setuo-neo.py)\<close>

text \<open>
  The graph database is the sequence of its nodes, each with its labels and its
  properties; a property that is not set reads as \<open>null\<close>. The seeding statement is
  \<^verbatim>\<open>MERGE (c:Category {name: $name})
  ON CREATE SET c.description = $desc
  ON MATCH  SET c.description = coalesce(c.description, $desc)\<close>
  \<open>MERGE\<close> binds \<open>c\<close> to every node with the label and the name; when there is none
  it creates one node with that label and name. \<open>coalesce\<close> takes its first argument
  that is not \<open>null\<close>.
\<close>

record node =
  labels :: "string list"
  props :: "(string \<times> string) list"

definition CATEGORIES :: "(string \<times> string) list" where
  "CATEGORIES =
     [(''campus_life'', ''Student life, events, hostel/food, facilities, clubs, sports, social activities''),
      (''academics'', ''Courses, exams, professors, assignments, grades, GPA, schedules''),
      (''admissions'', ''Applications, entrance tests, merit lists, scholarships, program selection'')]"

definition matches_category :: "string \<Rightarrow> node \<Rightarrow> bool" where
  "matches_category name n =
     (''Category'' \<in> set (labels n) \<and> map_of (props n) ''name'' = Some name)"

definition coalesce :: "string option \<Rightarrow> string \<Rightarrow> string" where
  "coalesce x dflt = (case x of None \<Rightarrow> dflt | Some v \<Rightarrow> v)"

text \<open>The two \<open>SET\<close> clauses.\<close>

definition on_create :: "string \<Rightarrow> string \<Rightarrow> node" where
  "on_create name desc =
     \<lparr>labels = [''Category''], props = [(''name'', name), (''description'', desc)]\<rparr>"

definition on_match :: "string \<Rightarrow> node \<Rightarrow> node" where
  "on_match desc c =
     c\<lparr>props := AList.update ''description''
                   (coalesce (map_of (props c) ''description'') desc) (props c)\<rparr>"

definition merge_category :: "string \<Rightarrow> string \<Rightarrow> node list \<Rightarrow> node list" where
  "merge_category name desc g =
     (if list_ex (matches_category name) g
      then map (\<lambda>c. if matches_category name c then on_match desc c else c) g
      else g @ [on_create name desc])"

definition seed_categories :: "node list \<Rightarrow> node list" where
  "seed_categories g = fold (\<lambda>(name, desc). merge_category name desc) CATEGORIES g"

subsection \<open>What the claim about the seeding speaks of\<close>

text \<open>A category that is there, with a description on each of its nodes.\<close>

definition seeded :: "string \<Rightarrow> node list \<Rightarrow> bool" where
  "seeded name g =
     (list_ex (matches_category name) g \<and>
      list_all (\<lambda>c. matches_category name c \<longrightarrow> map_of (props c) ''description'' \<noteq> None) g)"

definition category_names :: "node list \<Rightarrow> string list" where
  "category_names g =
     map (\<lambda>c. coalesce (map_of (props c) ''name'') []) (filter (\<lambda>c. ''Category'' \<in> set (labels c)) g)"

text \<open>What the statement does to one node it is run on.\<close>

definition touch :: "string \<Rightarrow> string \<Rightarrow> node \<Rightarrow> node" where
  "touch name desc c = (if matches_category name c then on_match desc c else c)"

text \<open>The row of a category as the seed states it: the label, the name and the description.\<close>

definition category_row :: "string \<Rightarrow> string \<Rightarrow> node" where
  "category_row name desc =
     \<lparr>labels = [''Category''], props = [(''name'', name), (''description'', desc)]\<rparr>"

text \<open>
  A node of the database after the seeding: a node of one of the three categories that has
  no description gets the seed description of its category; any other node is as it was.
\<close>

definition filled :: "node \<Rightarrow> node" where
  "filled c =
     (case (map_of (props c) ''name'', map_of (props c) ''description'') of
        (Some n, None) \<Rightarrow>
          (if ''Category'' \<in> set (labels c)
           then (case map_of CATEGORIES n of
                   Some d \<Rightarrow> c\<lparr>props := props c @ [(''description'', d)]\<rparr>
                 | None \<Rightarrow> c)
           else c)
      | _ \<Rightarrow> c)"

text \<open>
  A database in which an operator has already described one category and created
  another without a description.
\<close>

definition demo_graph :: "node list" where
  "demo_graph =
     [\<lparr>labels = [''Post''], props = [(''id'', ''p1'')]\<rparr>,
      \<lparr>labels = [''Category''], props = [(''name'', ''academics''), (''description'', ''Coursework'')]\<rparr>,
      \<lparr>labels = [''Category''], props = [(''name'', ''admissions'')]\<rparr>]"

section \<open>Properties of the Enricher\<close>

lemma analyze_post_shape:
  "\<exists>c s k de. analyze_post env n t b =
      [(''category'', c), (''sentiment'', s), (''keywords'', k), (''description'', de)]
    \<and> c \<in> set valid_categories \<and> s \<in> set valid_sentiments \<and> is_list k"
  by (cases "client env n (user_message env t b)")
     (auto simp: analyze_post_def default_analysis_def valid_categories_def valid_sentiments_def
        dict_setitem_def Let_def)

lemma analyze_post_raises:
  "client env n (user_message env t b) = Raises \<Longrightarrow> analyze_post env n t b = default_analysis"
  by (simp add: analyze_post_def)

lemma add_analysis_shape:
  "add_analysis [(''category'', c), (''sentiment'', s), (''keywords'', k), (''description'', de)] d =
     Some (dict_setitem ''llm_description'' de (dict_setitem ''keywords'' k
            (dict_setitem ''sentiment'' s (dict_setitem ''category'' c d))))"
  by (simp add: add_analysis_def Let_def)

lemma enriched_record_Some: "\<exists>r. enriched_record env k d = Some r"
proof -
  obtain c s kw de where "post_analysis env k d =
      [(''category'', c), (''sentiment'', s), (''keywords'', kw), (''description'', de)]"
    unfolding post_analysis_def using analyze_post_shape by blast
  then show ?thesis by (simp add: enriched_record_def add_analysis_shape)
qed

lemma enrich_one_cases:
  assumes "enrich_one env n i p w = (w', out)"
  shows "(w' = w \<and> out \<noteq> Returned) \<or>
         (\<exists>d r. p = JObj d \<and> enriched_record env (length (requests w)) d = Some r
            \<and> output_file w' = Some (file_lines (output_file w) @ [json_dumps env (JObj r)])
            \<and> length (requests w') = Suc (length (requests w))
            \<and> input_file w' = input_file w)"
proof (cases p)
  case (JObj d)
  obtain c s kw de where sh: "post_analysis env (length (requests w)) d =
      [(''category'', c), (''sentiment'', s), (''keywords'', kw), (''description'', de)]"
    unfolding post_analysis_def using analyze_post_shape by blast
  show ?thesis
  proof (cases "sliceable (dict_get d ''title'' (JStr []))")
    case True
    from assms JObj True sh show ?thesis
      by (auto simp: enrich_one_def Let_def enriched_record_def add_analysis_shape
            post_analysis_def split: if_splits)
  next
    case False
    with assms JObj show ?thesis by (auto simp: enrich_one_def Let_def)
  qed
qed (use assms in \<open>auto simp: enrich_one_def\<close>)

lemma process_posts_records:
  "process_posts env n i posts w = (w', out) \<Longrightarrow>
   \<exists>recs. length recs \<le> length posts \<and> (out = Returned \<longrightarrow> length recs = length posts) \<and>
     (\<forall>j<length recs. \<exists>d. posts ! j = JObj d \<and>
         enriched_record env (length (requests w) + j) d = Some (recs ! j)) \<and>
     file_lines (output_file w') = file_lines (output_file w) @ map (dumps_record env) recs \<and>
     input_file w' = input_file w"
proof (induction posts arbitrary: w i)
  case Nil
  then show ?case by auto
next
  case (Cons p ps)
  obtain w1 o1 where step: "enrich_one env n i p w = (w1, o1)"
    by (cases "enrich_one env n i p w")
  from enrich_one_cases [OF step]
  consider (early) "w1 = w" "o1 \<noteq> Returned"
    | (wrote) d r where "p = JObj d"
        "enriched_record env (length (requests w)) d = Some r"
        "output_file w1 = Some (file_lines (output_file w) @ [json_dumps env (JObj r)])"
        "length (requests w1) = Suc (length (requests w))"
        "input_file w1 = input_file w"
    by blast
  then show ?case
  proof cases
    case early
    with Cons.prems step have "w' = w" "out \<noteq> Returned"
      by (auto split: outcome.splits)
    then show ?thesis by (intro exI [of _ "[]"]) simp
  next
    case wrote
    show ?thesis
    proof (cases o1)
      case (Raised e)
      with Cons.prems step have "w' = w1" "out = Raised e" by auto
      with wrote show ?thesis
        by (intro exI [of _ "[r]"]) (simp add: file_lines_def dumps_record_def)
    next
      case Returned
      with Cons.prems step have rest: "process_posts env n (Suc i) ps w1 = (w', out)" by simp
      from Cons.IH [OF rest] obtain recs where
        len: "length recs \<le> length ps" and
        full: "out = Returned \<longrightarrow> length recs = length ps" and
        each: "\<forall>j<length recs. \<exists>d. ps ! j = JObj d \<and>
                 enriched_record env (length (requests w1) + j) d = Some (recs ! j)" and
        lines: "file_lines (output_file w') =
                  file_lines (output_file w1) @ map (dumps_record env) recs" and
        inp: "input_file w' = input_file w1"
        by blast
      have each': "\<forall>j<length (r # recs). \<exists>d. (p # ps) ! j = JObj d \<and>
                 enriched_record env (length (requests w) + j) d = Some ((r # recs) ! j)"
      proof (intro allI impI)
        fix j assume j: "j < length (r # recs)"
        show "\<exists>d. (p # ps) ! j = JObj d \<and>
                 enriched_record env (length (requests w) + j) d = Some ((r # recs) ! j)"
        proof (cases j)
          case 0
          with wrote show ?thesis by simp
        next
          case (Suc j')
          with j each wrote(4) show ?thesis by simp
        qed
      qed
      from lines wrote(3) have "file_lines (output_file w') =
          file_lines (output_file w) @ map (dumps_record env) (r # recs)"
        by (simp add: file_lines_def dumps_record_def)
      with len full each' inp wrote(5) show ?thesis
        by (intro exI [of _ "r # recs"]) simp
    qed
  qed
qed

lemma read_posts_filter:
  "read_posts env ls = Inr posts \<Longrightarrow> map Some posts = map (json_loads env) (filter nonblank ls)"
  by (induction ls arbitrary: posts) (auto split: if_splits option.splits sum.splits)

lemma enriched_record_eq:
  "\<exists>c s k de. post_analysis env n d =
        [(''category'', c), (''sentiment'', s), (''keywords'', k), (''description'', de)]
     \<and> c \<in> set valid_categories \<and> s \<in> set valid_sentiments \<and> is_list k
     \<and> enriched_record env n d =
         Some (dict_setitem ''llm_description'' de (dict_setitem ''keywords'' k
                (dict_setitem ''sentiment'' s (dict_setitem ''category'' c d))))"
proof -
  obtain c s k de where "post_analysis env n d =
        [(''category'', c), (''sentiment'', s), (''keywords'', k), (''description'', de)]"
     "c \<in> set valid_categories" "s \<in> set valid_sentiments" "is_list k"
    unfolding post_analysis_def using analyze_post_shape by blast
  then show ?thesis by (auto simp: enriched_record_def add_analysis_shape)
qed

lemma map_of_setitem: "map_of (dict_setitem k v ps) = (map_of ps)(k \<mapsto> v)"
  by (simp add: dict_setitem_def update_conv')

lemma keys_setitem: "fst ` set (dict_setitem k v ps) = insert k (fst ` set ps)"
  by (simp add: dict_setitem_def dom_update)

lemma enriched_record_labels_valid:
  assumes "enriched_record env n d = Some r"
  shows "labels_valid r"
  using enriched_record_eq [of env n d] assms
  by (auto simp: labels_valid_def map_of_setitem)

lemma analysis_fields_mem:
  "''category'' \<in> set analysis_fields" "''sentiment'' \<in> set analysis_fields"
  "''keywords'' \<in> set analysis_fields" "''llm_description'' \<in> set analysis_fields"
  by (simp_all add: analysis_fields_def)

lemma filter_setitem_other:
  "k \<in> S \<Longrightarrow> filter (\<lambda>q. fst q \<notin> S) (dict_setitem k v ps) = filter (\<lambda>q. fst q \<notin> S) ps"
  unfolding dict_setitem_def by (induction ps) auto

lemma enriched_record_frame:
  assumes "enriched_record env n d = Some r"
  shows "fst ` set r = fst ` set d \<union> set analysis_fields"
    and "key \<notin> set analysis_fields \<Longrightarrow> map_of r key = map_of d key"
    and "filter (\<lambda>q. fst q \<notin> set analysis_fields) r = filter (\<lambda>q. fst q \<notin> set analysis_fields) d"
proof -
  from enriched_record_eq [of env n d] assms obtain c s k de where
    r: "r = dict_setitem ''llm_description'' de (dict_setitem ''keywords'' k
                (dict_setitem ''sentiment'' s (dict_setitem ''category'' c d)))"
    by auto
  show "fst ` set r = fst ` set d \<union> set analysis_fields"
    unfolding r by (auto simp: keys_setitem analysis_fields_def)
  show "filter (\<lambda>q. fst q \<notin> set analysis_fields) r = filter (\<lambda>q. fst q \<notin> set analysis_fields) d"
    unfolding r by (simp add: filter_setitem_other analysis_fields_mem)
  show "map_of r key = map_of d key" if "key \<notin> set analysis_fields"
  proof -
    from that have "key \<noteq> ''category''" "key \<noteq> ''sentiment''" "key \<noteq> ''keywords''"
      "key \<noteq> ''llm_description''"
      using analysis_fields_mem by auto
    then show ?thesis unfolding r by (simp add: map_of_setitem)
  qed
qed

text \<open>
  Claim C10. When the input file does not exist, \<open>enrich_posts\<close> returns normally and
  leaves the whole state as it was: both files (a pre-existing output file is neither
  deleted nor changed), no request to the classification service, no pause.
\<close>
theorem missing_input_no_effect:
  "input_file w = None \<Longrightarrow> enrich_posts env w = (w, Returned)"
  by (simp add: enrich_posts_def)

theorem missing_input_no_effect_witness:
  "input_file stale_world = None \<and> enrich_posts demo_env stale_world = (stale_world, Returned)"
proof -
  have h: "input_file stale_world = None" by (simp add: stale_world_def)
  from missing_input_no_effect [OF h, of demo_env] h show ?thesis by simp
qed

text \<open>
  Claim C1. The classification call is made for a post that is an object whose title can
  be sliced. When that call raises, the iteration does not raise, the record appended to
  the output is the post with exactly \<open>category = campus_life\<close>, \<open>sentiment = neutral\<close>,
  \<open>keywords = []\<close> and \<open>llm_description = "Error during analysis"\<close> set, and the loop goes
  on with the next post.
\<close>
theorem classification_error_default_label:
  assumes "sliceable (dict_get d ''title'' (JStr []))"
    and "client env (length (requests w))
           (user_message env (dict_get d ''title'' (JStr [])) (dict_get d ''selftext'' (JStr [])))
         = Raises"
  shows "\<exists>w' r. enrich_one env n i (JObj d) w = (w', Returned)
           \<and> output_file w' = Some (file_lines (output_file w) @ [dumps_record env r])
           \<and> r = dict_setitem ''llm_description'' (JStr ''Error during analysis'')
                  (dict_setitem ''keywords'' (JList [])
                    (dict_setitem ''sentiment'' (JStr ''neutral'')
                      (dict_setitem ''category'' (JStr ''campus_life'') d)))
           \<and> map_of r ''category'' = Some (JStr ''campus_life'')
           \<and> map_of r ''sentiment'' = Some (JStr ''neutral'')
           \<and> map_of r ''keywords'' = Some (JList [])
           \<and> map_of r ''llm_description'' = Some (JStr ''Error during analysis'')
           \<and> process_posts env n i (JObj d # posts) w = process_posts env n (Suc i) posts w'"
proof -
  have a: "analyze_post env (length (requests w))
             (dict_get d ''title'' (JStr [])) (dict_get d ''selftext'' (JStr [])) = default_analysis"
    using assms(2) by (rule analyze_post_raises)
  have b: "add_analysis default_analysis d =
      Some (dict_setitem ''llm_description'' (JStr ''Error during analysis'')
                  (dict_setitem ''keywords'' (JList [])
                    (dict_setitem ''sentiment'' (JStr ''neutral'')
                      (dict_setitem ''category'' (JStr ''campus_life'') d))))"
    by (simp add: default_analysis_def add_analysis_shape)
  have c: "map_of default_analysis ''description'' = Some (JStr ''Error during analysis'')"
    by (simp add: default_analysis_def)
  show ?thesis
    using assms(1) a b c
    by (simp add: enrich_one_def Let_def dumps_record_def map_of_setitem)
qed

theorem classification_error_default_label_witness:
  "sliceable (dict_get demo_post ''title'' (JStr []))
   \<and> client demo_env (length (requests demo_world))
         (user_message demo_env (dict_get demo_post ''title'' (JStr []))
            (dict_get demo_post ''selftext'' (JStr []))) = Raises
   \<and> (\<exists>w' r. enrich_one demo_env 2 1 (JObj demo_post) demo_world = (w', Returned)
           \<and> output_file w' = Some (file_lines (output_file demo_world) @ [dumps_record demo_env r])
           \<and> r = dict_setitem ''llm_description'' (JStr ''Error during analysis'')
                  (dict_setitem ''keywords'' (JList [])
                    (dict_setitem ''sentiment'' (JStr ''neutral'')
                      (dict_setitem ''category'' (JStr ''campus_life'') demo_post)))
           \<and> map_of r ''category'' = Some (JStr ''campus_life'')
           \<and> map_of r ''sentiment'' = Some (JStr ''neutral'')
           \<and> map_of r ''keywords'' = Some (JList [])
           \<and> map_of r ''llm_description'' = Some (JStr ''Error during analysis'')
           \<and> process_posts demo_env 2 1 (JObj demo_post # []) demo_world
               = process_posts demo_env 2 (Suc 1) [] w')"
proof -
  have h1: "sliceable (dict_get demo_post ''title'' (JStr []))"
    by (simp add: demo_post_def dict_get_def)
  have h2: "client demo_env (length (requests demo_world))
         (user_message demo_env (dict_get demo_post ''title'' (JStr []))
            (dict_get demo_post ''selftext'' (JStr []))) = Raises"
    by (simp add: demo_env_def demo_world_def)
  show ?thesis
    by (rule conjI [OF h1 conjI [OF h2 classification_error_default_label [OF h1 h2]]])
qed

lemma enrich_one_writes:
  assumes "sliceable (dict_get d ''title'' (JStr []))"
  shows "\<exists>r. enriched_record env (length (requests w)) d = Some r \<and>
           output_file (fst (enrich_one env n i (JObj d) w)) =
             Some (file_lines (output_file w) @ [dumps_record env r])"
proof -
  from enriched_record_eq [of env "length (requests w)" d] obtain c s k de where
    "post_analysis env (length (requests w)) d =
        [(''category'', c), (''sentiment'', s), (''keywords'', k), (''description'', de)]"
    "enriched_record env (length (requests w)) d =
         Some (dict_setitem ''llm_description'' de (dict_setitem ''keywords'' k
                (dict_setitem ''sentiment'' s (dict_setitem ''category'' c d))))"
    by blast
  with assms show ?thesis
    by (simp add: enrich_one_def Let_def post_analysis_def add_analysis_shape dumps_record_def)
qed

text \<open>
  Claim C4. The record written for a post has every key of the post (none is deleted or
  renamed), its keys are those of the post and the four analysis fields, every key that is
  not one of the four analysis fields has the value it had, and these keys keep their
  order: the only fields set are \<open>category\<close>, \<open>sentiment\<close>, \<open>keywords\<close> and
  \<open>llm_description\<close>.
\<close>
theorem enrichment_preserves_existing_fields:
  assumes "sliceable (dict_get d ''title'' (JStr []))"
  shows "\<exists>r. output_file (fst (enrich_one env n i (JObj d) w)) =
                Some (file_lines (output_file w) @ [dumps_record env r])
           \<and> fst ` set d \<subseteq> fst ` set r
           \<and> fst ` set r = fst ` set d \<union> set analysis_fields
           \<and> (\<forall>key. key \<notin> set analysis_fields \<longrightarrow> map_of r key = map_of d key)
           \<and> filter (\<lambda>q. fst q \<notin> set analysis_fields) r =
               filter (\<lambda>q. fst q \<notin> set analysis_fields) d"
proof -
  from enrich_one_writes [OF assms, of env w n i] obtain r where
    r: "enriched_record env (length (requests w)) d = Some r"
    and out: "output_file (fst (enrich_one env n i (JObj d) w)) =
             Some (file_lines (output_file w) @ [dumps_record env r])"
    by blast
  have keys: "fst ` set r = fst ` set d \<union> set analysis_fields"
    by (rule enriched_record_frame(1) [OF r])
  have vals: "\<forall>key. key \<notin> set analysis_fields \<longrightarrow> map_of r key = map_of d key"
    using enriched_record_frame(2) [OF r] by blast
  have ord: "filter (\<lambda>q. fst q \<notin> set analysis_fields) r =
               filter (\<lambda>q. fst q \<notin> set analysis_fields) d"
    by (rule enriched_record_frame(3) [OF r])
  from keys have sub: "fst ` set d \<subseteq> fst ` set r" by blast
  from out sub keys vals ord show ?thesis by blast
qed

theorem enrichment_preserves_existing_fields_witness:
  "sliceable (dict_get demo_post ''title'' (JStr []))
   \<and> (\<exists>r. output_file (fst (enrich_one demo_env 2 1 (JObj demo_post) demo_world)) =
                Some (file_lines (output_file demo_world) @ [dumps_record demo_env r])
           \<and> fst ` set demo_post \<subseteq> fst ` set r
           \<and> fst ` set r = fst ` set demo_post \<union> set analysis_fields
           \<and> (\<forall>key. key \<notin> set analysis_fields \<longrightarrow> map_of r key = map_of demo_post key)
           \<and> filter (\<lambda>q. fst q \<notin> set analysis_fields) r =
               filter (\<lambda>q. fst q \<notin> set analysis_fields) demo_post)
   \<and> ''title'' \<notin> set analysis_fields"
proof -
  have h1: "sliceable (dict_get demo_post ''title'' (JStr []))"
    by (simp add: demo_post_def dict_get_def)
  have h2: "''title'' \<notin> set analysis_fields"
    by (simp add: analysis_fields_def)
  show ?thesis
    by (rule conjI [OF h1 conjI [OF enrichment_preserves_existing_fields [OF h1] h2]])
qed

lemma analyze_post_parsed:
  assumes "client env n (user_message env t b) = Parsed c s k de"
  shows "analyze_post env n t b =
        [(''category'', if c \<in> set valid_categories then c else JStr ''campus_life''),
         (''sentiment'', if s \<in> set valid_sentiments then s else JStr ''neutral''),
         (''keywords'', if is_list k then k else JList []),
         (''description'', de)]"
  using assms by (simp add: analyze_post_def dict_setitem_def Let_def)

lemma enrich_posts_records:
  assumes "input_file w = Some ls" and "read_posts env ls = Inr posts"
    and "enrich_posts env w = (w', out)"
  shows "\<exists>recs. length recs \<le> length posts \<and> (out = Returned \<longrightarrow> length recs = length posts) \<and>
     (\<forall>j<length recs. \<exists>d. posts ! j = JObj d \<and>
         enriched_record env (length (requests w) + j) d = Some (recs ! j)) \<and>
     file_lines (output_file w') = map (dumps_record env) recs"
proof -
  from assms have "process_posts env (length posts) 1 posts (w\<lparr>output_file := None\<rparr>) = (w', out)"
    by (simp add: enrich_posts_def)
  from process_posts_records [OF this] obtain recs where
    "length recs \<le> length posts" "out = Returned \<longrightarrow> length recs = length posts"
    "\<forall>j<length recs. \<exists>d. posts ! j = JObj d \<and>
         enriched_record env (length (requests w) + j) d = Some (recs ! j)"
    "file_lines (output_file w') = map (dumps_record env) recs"
    by (auto simp: file_lines_def)
  then show ?thesis by blast
qed

lemma coerced_record_fields:
  "map_of (coerced_record c s k de d) ''category'' =
     Some (if c \<in> set valid_categories then c else JStr ''campus_life'')"
  "map_of (coerced_record c s k de d) ''sentiment'' =
     Some (if s \<in> set valid_sentiments then s else JStr ''neutral'')"
  "map_of (coerced_record c s k de d) ''keywords'' = Some (if is_list k then k else JList [])"
  "map_of (coerced_record c s k de d) ''llm_description'' = Some de"
  by (simp_all add: coerced_record_def map_of_setitem)

lemma coerced_record_valid: "labels_valid (coerced_record c s k de d)"
  by (simp add: labels_valid_def coerced_record_fields valid_categories_def valid_sentiments_def)

lemma enriched_record_parsed:
  assumes "client env q (user_message env (dict_get d ''title'' (JStr []))
             (dict_get d ''selftext'' (JStr []))) = Parsed c s k de"
  shows "enriched_record env q d = Some (coerced_record c s k de d)"
  using analyze_post_parsed [OF assms]
  by (simp add: enriched_record_def post_analysis_def add_analysis_shape coerced_record_def)

lemma enriched_record_raises:
  assumes "client env q (user_message env (dict_get d ''title'' (JStr []))
             (dict_get d ''selftext'' (JStr []))) = Raises"
  shows "enriched_record env q d =
        Some (coerced_record (JStr ''campus_life'') (JStr ''neutral'') (JList [])
                (JStr ''Error during analysis'') d)"
  using analyze_post_raises [OF assms]
  by (simp add: enriched_record_def post_analysis_def default_analysis_def add_analysis_shape
        coerced_record_def valid_categories_def valid_sentiments_def)

lemma enrich_one_parsed:
  assumes "sliceable (dict_get d ''title'' (JStr []))"
    and "client env (length (requests w)) (user_message env (dict_get d ''title'' (JStr []))
             (dict_get d ''selftext'' (JStr []))) = Parsed c s k de"
  shows "output_file (fst (enrich_one env n i (JObj d) w)) =
           Some (file_lines (output_file w) @ [dumps_record env (coerced_record c s k de d)])"
    and "snd (enrich_one env n i (JObj d) w) = Returned \<longleftrightarrow>
           de = JStr ''Error during analysis'' \<or> join_first3_ok (if is_list k then k else JList [])"
proof -
  note a = analyze_post_parsed [OF assms(2)]
  show "output_file (fst (enrich_one env n i (JObj d) w)) =
           Some (file_lines (output_file w) @ [dumps_record env (coerced_record c s k de d)])"
    using assms(1)
    by (simp add: enrich_one_def Let_def a add_analysis_shape dumps_record_def coerced_record_def
          del: join_first3_ok.simps)
  show "snd (enrich_one env n i (JObj d) w) = Returned \<longleftrightarrow>
           de = JStr ''Error during analysis'' \<or> join_first3_ok (if is_list k then k else JList [])"
    using assms(1)
    by (simp add: enrich_one_def Let_def a add_analysis_shape del: join_first3_ok.simps)
qed

lemma records_pinned_valid:
  assumes "\<forall>j<length recs. \<exists>d. posts ! j = JObj d \<and> enriched_record env (k + j) d = Some (recs ! j)"
  shows "\<forall>j<length recs. \<exists>d. posts ! j = JObj d \<and> enriched_record env (k + j) d = Some (recs ! j)
            \<and> labels_valid (recs ! j)"
  using assms enriched_record_labels_valid by blast

text \<open>
  Claim C2. The record written for a post is the post with the answer of the service set
  on it, where a category outside the enum has become \<open>campus_life\<close>, a sentiment outside
  the enum \<open>neutral\<close> and keywords that are not a list the empty list; the description is
  kept. Such a record has its category and sentiment in the enums. The answer is not
  rejected: the record is appended whatever the answer, whether the iteration returns does
  not depend on the category or the sentiment, and with keywords that are not a list it
  returns. When the call raises, the record is the post with the default label. In a run,
  the \<open>j\<close>-th line of the output is the record of the \<open>j\<close>-th post, made this way from
  the \<open>j\<close>-th answer, and its category and sentiment are in the enums.
\<close>
theorem enricher_labels_within_enums:
  "(client env q (user_message env (dict_get d ''title'' (JStr []))
        (dict_get d ''selftext'' (JStr []))) = Parsed c s k de \<longrightarrow>
      enriched_record env q d = Some (coerced_record c s k de d)
      \<and> map_of (coerced_record c s k de d) ''category'' =
          Some (if c \<in> set valid_categories then c else JStr ''campus_life'')
      \<and> map_of (coerced_record c s k de d) ''sentiment'' =
          Some (if s \<in> set valid_sentiments then s else JStr ''neutral'')
      \<and> map_of (coerced_record c s k de d) ''keywords'' = Some (if is_list k then k else JList [])
      \<and> map_of (coerced_record c s k de d) ''llm_description'' = Some de
      \<and> labels_valid (coerced_record c s k de d))
   \<and> (client env q (user_message env (dict_get d ''title'' (JStr []))
        (dict_get d ''selftext'' (JStr []))) = Raises \<longrightarrow>
      enriched_record env q d =
        Some (coerced_record (JStr ''campus_life'') (JStr ''neutral'') (JList [])
                (JStr ''Error during analysis'') d))
   \<and> (sliceable (dict_get d ''title'' (JStr []))
       \<and> client env (length (requests w)) (user_message env (dict_get d ''title'' (JStr []))
            (dict_get d ''selftext'' (JStr []))) = Parsed c s k de \<longrightarrow>
      output_file (fst (enrich_one env n i (JObj d) w)) =
        Some (file_lines (output_file w) @ [dumps_record env (coerced_record c s k de d)])
      \<and> (snd (enrich_one env n i (JObj d) w) = Returned \<longleftrightarrow>
           de = JStr ''Error during analysis'' \<or> join_first3_ok (if is_list k then k else JList []))
      \<and> (\<not> is_list k \<longrightarrow> snd (enrich_one env n i (JObj d) w) = Returned))
   \<and> (input_file w = Some ls \<and> read_posts env ls = Inr posts \<longrightarrow>
        (\<exists>recs. file_lines (output_file (fst (enrich_posts env w))) = map (dumps_record env) recs
               \<and> length recs \<le> length posts
               \<and> (snd (enrich_posts env w) = Returned \<longrightarrow> length recs = length posts)
               \<and> (\<forall>j<length recs. \<exists>p. posts ! j = JObj p
                     \<and> enriched_record env (length (requests w) + j) p = Some (recs ! j)
                     \<and> labels_valid (recs ! j))))"
proof (intro conjI impI)
  assume a: "client env q (user_message env (dict_get d ''title'' (JStr []))
        (dict_get d ''selftext'' (JStr []))) = Parsed c s k de"
  show "enriched_record env q d = Some (coerced_record c s k de d)"
    by (rule enriched_record_parsed [OF a])
  show "map_of (coerced_record c s k de d) ''category'' =
          Some (if c \<in> set valid_categories then c else JStr ''campus_life'')"
    by (rule coerced_record_fields)
  show "map_of (coerced_record c s k de d) ''sentiment'' =
          Some (if s \<in> set valid_sentiments then s else JStr ''neutral'')"
    by (rule coerced_record_fields)
  show "map_of (coerced_record c s k de d) ''keywords'' = Some (if is_list k then k else JList [])"
    by (rule coerced_record_fields)
  show "map_of (coerced_record c s k de d) ''llm_description'' = Some de"
    by (rule coerced_record_fields)
  show "labels_valid (coerced_record c s k de d)"
    by (rule coerced_record_valid)
next
  assume "client env q (user_message env (dict_get d ''title'' (JStr []))
        (dict_get d ''selftext'' (JStr []))) = Raises"
  then show "enriched_record env q d =
        Some (coerced_record (JStr ''campus_life'') (JStr ''neutral'') (JList [])
                (JStr ''Error during analysis'') d)"
    by (rule enriched_record_raises)
next
  assume b: "sliceable (dict_get d ''title'' (JStr []))
       \<and> client env (length (requests w)) (user_message env (dict_get d ''title'' (JStr []))
            (dict_get d ''selftext'' (JStr []))) = Parsed c s k de"
  note P = enrich_one_parsed [OF conjunct1 [OF b] conjunct2 [OF b], of n i]
  show "output_file (fst (enrich_one env n i (JObj d) w)) =
        Some (file_lines (output_file w) @ [dumps_record env (coerced_record c s k de d)])"
    by (rule P(1))
  show "snd (enrich_one env n i (JObj d) w) = Returned \<longleftrightarrow>
           de = JStr ''Error during analysis'' \<or> join_first3_ok (if is_list k then k else JList [])"
    by (rule P(2))
  show "snd (enrich_one env n i (JObj d) w) = Returned" if "\<not> is_list k"
    using P(2) that by simp
next
  assume a: "input_file w = Some ls \<and> read_posts env ls = Inr posts"
  obtain w' out where run: "enrich_posts env w = (w', out)"
    by (cases "enrich_posts env w")
  from enrich_posts_records [OF _ _ run] a obtain recs where
    len: "length recs \<le> length posts" "out = Returned \<longrightarrow> length recs = length posts"
    and each: "\<forall>j<length recs. \<exists>d. posts ! j = JObj d \<and>
         enriched_record env (length (requests w) + j) d = Some (recs ! j)"
    and lines: "file_lines (output_file w') = map (dumps_record env) recs"
    by blast
  from records_pinned_valid [OF each] len lines run
  show "\<exists>recs. file_lines (output_file (fst (enrich_posts env w))) = map (dumps_record env) recs
               \<and> length recs \<le> length posts
               \<and> (snd (enrich_posts env w) = Returned \<longrightarrow> length recs = length posts)
               \<and> (\<forall>j<length recs. \<exists>p. posts ! j = JObj p
                     \<and> enriched_record env (length (requests w) + j) p = Some (recs ! j)
                     \<and> labels_valid (recs ! j))"
    by (intro exI [of _ recs]) simp
qed

text \<open>
  Claim C3, as amended. When the input file exists and the run returns without raising,
  nothing of a previous output file is left: the output consists of exactly one line per
  non-blank input line, the \<open>j\<close>-th being the enriched record of the \<open>j\<close>-th parsed
  post, so it has as many lines as the input has non-blank lines.
\<close>
theorem output_rebuilt_when_input_exists:
  assumes "input_file w = Some ls" and "enrich_posts env w = (w', Returned)"
  shows "\<exists>posts recs. map Some posts = map (json_loads env) (filter nonblank ls)
      \<and> length recs = length posts
      \<and> (\<forall>j<length posts. \<exists>d. posts ! j = JObj d \<and>
             enriched_record env (length (requests w) + j) d = Some (recs ! j))
      \<and> file_lines (output_file w') = map (dumps_record env) recs
      \<and> length (file_lines (output_file w')) = length (filter nonblank ls)"
proof -
  from assms obtain posts where rd: "read_posts env ls = Inr posts"
    by (auto simp: enrich_posts_def split: sum.splits)
  from enrich_posts_records [OF assms(1) rd assms(2)] obtain recs where
    len: "length recs = length posts"
    and each: "\<forall>j<length recs. \<exists>d. posts ! j = JObj d \<and>
         enriched_record env (length (requests w) + j) d = Some (recs ! j)"
    and lines: "file_lines (output_file w') = map (dumps_record env) recs"
    by auto
  have parsed: "map Some posts = map (json_loads env) (filter nonblank ls)"
    by (rule read_posts_filter [OF rd])
  then have "length posts = length (filter nonblank ls)"
    by (metis length_map)
  with len each lines parsed show ?thesis
    by (intro exI [of _ posts] exI [of _ recs]) simp
qed

text \<open>
  Claim C3 as stated speaks of every run. In a run without an input file the previous output
  file is not deleted: it keeps its line, while the input has no post.
\<close>
theorem stale_output_survives_missing_input:
  "input_file stale_world = None
   \<and> output_file stale_world = Some [''stale'']
   \<and> enrich_posts demo_env stale_world = (stale_world, Returned)
   \<and> file_lines (output_file (fst (enrich_posts demo_env stale_world))) = [''stale'']"
  by (simp add: stale_world_def enrich_posts_def file_lines_def)

text \<open>
  A run on well-formed posts with typed responses returns normally.
\<close>
lemma enrich_one_returns:
  assumes "well_formed_post p"
    and "\<forall>k m. response_typed (client env k m)"
  shows "snd (enrich_one env n i p w) = Returned"
proof -
  from assms(1) obtain d where p: "p = JObj d" and t: "sliceable (dict_get d ''title'' (JStr []))"
    by (auto simp: well_formed_post_def split: json.splits)
  let ?m = "user_message env (dict_get d ''title'' (JStr [])) (dict_get d ''selftext'' (JStr []))"
  show ?thesis
  proof (cases "client env (length (requests w)) ?m")
    case Raises
    then show ?thesis using p t
      by (simp add: enrich_one_def Let_def analyze_post_def default_analysis_def add_analysis_shape)
  next
    case (Parsed c s k de)
    from assms(2) have "response_typed (client env (length (requests w)) ?m)" by blast
    with Parsed have ok: "is_list k \<longrightarrow> join_first3_ok k"
      by (simp add: response_typed_def)
    from Parsed have a: "analyze_post env (length (requests w)) (dict_get d ''title'' (JStr []))
        (dict_get d ''selftext'' (JStr [])) =
        [(''category'', if c \<in> set valid_categories then c else JStr ''campus_life''),
         (''sentiment'', if s \<in> set valid_sentiments then s else JStr ''neutral''),
         (''keywords'', if is_list k then k else JList []),
         (''description'', de)]"
      by (rule analyze_post_parsed)
    from ok have "join_first3_ok (if is_list k then k else JList [])" by simp
    then show ?thesis using p t
      by (simp add: enrich_one_def Let_def a add_analysis_shape del: join_first3_ok.simps)
  qed
qed

lemma process_posts_returns:
  assumes "list_all well_formed_post posts" and "\<forall>n m. response_typed (client env n m)"
  shows "snd (process_posts env n i posts w) = Returned"
  using assms(1)
proof (induction posts arbitrary: w i)
  case Nil
  then show ?case by simp
next
  case (Cons p ps)
  from Cons.prems have "well_formed_post p" "list_all well_formed_post ps" by simp_all
  from enrich_one_returns [OF this(1) assms(2)]
  have "snd (enrich_one env n i p w) = Returned" .
  then obtain w1 where "enrich_one env n i p w = (w1, Returned)"
    by (cases "enrich_one env n i p w") simp
  with Cons.IH [OF \<open>list_all well_formed_post ps\<close>] show ?case by simp
qed

lemma read_posts_well_formed:
  assumes "\<forall>l\<in>set ls. nonblank l \<longrightarrow> (\<exists>p. json_loads env l = Some p \<and> well_formed_post p)"
  shows "\<exists>posts. read_posts env ls = Inr posts \<and> list_all well_formed_post posts"
  using assms by (induction ls) auto

lemma enrich_posts_returns:
  assumes "input_file w = Some ls"
    and "\<forall>l\<in>set ls. nonblank l \<longrightarrow> (\<exists>p. json_loads env l = Some p \<and> well_formed_post p)"
    and "\<forall>n m. response_typed (client env n m)"
  shows "snd (enrich_posts env w) = Returned"
proof -
  from read_posts_well_formed [OF assms(2)] obtain posts where
    "read_posts env ls = Inr posts" "list_all well_formed_post posts" by blast
  with assms(1) process_posts_returns [OF this(2) assms(3)] show ?thesis
    by (simp add: enrich_posts_def)
qed

lemma demo_run_returns: "snd (enrich_posts demo_env demo_world) = Returned"
proof (rule enrich_posts_returns)
  show "input_file demo_world = Some [''post-1'', ''  '', ''post-2'']"
    by (simp add: demo_world_def)
  show "\<forall>l\<in>set [''post-1'', ''  '', ''post-2'']. nonblank l \<longrightarrow>
          (\<exists>p. json_loads demo_env l = Some p \<and> well_formed_post p)"
    by (simp add: demo_env_def well_formed_post_def dict_get_def demo_post_def nonblank_def
          py_isspace_def)
  show "\<forall>n m. response_typed (client demo_env n m)"
    by (simp add: demo_env_def response_typed_def)
qed

lemma demo_read: "read_posts demo_env [''post-1'', ''  '', ''post-2''] =
    Inr [JObj demo_post, JObj [(''id'', JStr ''q7'')]]"
  by (simp add: demo_env_def nonblank_def py_isspace_def)

theorem output_rebuilt_when_input_exists_witness:
  "input_file demo_world = Some [''post-1'', ''  '', ''post-2'']
   \<and> enrich_posts demo_env demo_world = (fst (enrich_posts demo_env demo_world), Returned)
   \<and> (\<exists>posts recs.
         map Some posts = map (json_loads demo_env) (filter nonblank [''post-1'', ''  '', ''post-2''])
       \<and> length recs = length posts
       \<and> (\<forall>j<length posts. \<exists>d. posts ! j = JObj d \<and>
             enriched_record demo_env (length (requests demo_world) + j) d = Some (recs ! j))
       \<and> file_lines (output_file (fst (enrich_posts demo_env demo_world))) =
           map (dumps_record demo_env) recs
       \<and> length (file_lines (output_file (fst (enrich_posts demo_env demo_world)))) =
           length (filter nonblank [''post-1'', ''  '', ''post-2'']))"
proof -
  have h1: "input_file demo_world = Some [''post-1'', ''  '', ''post-2'']"
    by (simp add: demo_world_def)
  have h2: "enrich_posts demo_env demo_world = (fst (enrich_posts demo_env demo_world), Returned)"
    using demo_run_returns by (simp add: prod_eq_iff)
  show ?thesis
    by (rule conjI [OF h1 conjI [OF h2 output_rebuilt_when_input_exists [OF h1 h2]]])
qed

lemma demo_coerced:
  "coerced_record (JStr ''sports'') (JStr ''positive'') JNull (JStr ''about a match'')
      [(''id'', JStr ''q7'')] =
     [(''id'', JStr ''q7''), (''category'', JStr ''campus_life''), (''sentiment'', JStr ''positive''),
      (''keywords'', JList []), (''llm_description'', JStr ''about a match'')]"
  by (simp add: coerced_record_def dict_setitem_def valid_categories_def valid_sentiments_def)

theorem enricher_labels_within_enums_witness:
  "client demo_env 1 (user_message demo_env (dict_get [(''id'', JStr ''q7'')] ''title'' (JStr []))
        (dict_get [(''id'', JStr ''q7'')] ''selftext'' (JStr []))) =
      Parsed (JStr ''sports'') (JStr ''positive'') JNull (JStr ''about a match'')
   \<and> enriched_record demo_env 1 [(''id'', JStr ''q7'')] =
       Some [(''id'', JStr ''q7''), (''category'', JStr ''campus_life''),
             (''sentiment'', JStr ''positive''), (''keywords'', JList []),
             (''llm_description'', JStr ''about a match'')]
   \<and> client demo_env 0 (user_message demo_env (dict_get [(''id'', JStr ''q7'')] ''title'' (JStr []))
        (dict_get [(''id'', JStr ''q7'')] ''selftext'' (JStr []))) = Raises
   \<and> enriched_record demo_env 0 [(''id'', JStr ''q7'')] =
        Some (coerced_record (JStr ''campus_life'') (JStr ''neutral'') (JList [])
                (JStr ''Error during analysis'') [(''id'', JStr ''q7'')])
   \<and> sliceable (dict_get [(''id'', JStr ''q7'')] ''title'' (JStr []))
   \<and> length (requests demo_world_later) = 1
   \<and> output_file (fst (enrich_one demo_env 2 2 (JObj [(''id'', JStr ''q7'')]) demo_world_later)) =
       Some (file_lines (output_file demo_world_later) @
         [dumps_record demo_env
            [(''id'', JStr ''q7''), (''category'', JStr ''campus_life''),
             (''sentiment'', JStr ''positive''), (''keywords'', JList []),
             (''llm_description'', JStr ''about a match'')]])
   \<and> \<not> is_list JNull
   \<and> snd (enrich_one demo_env 2 2 (JObj [(''id'', JStr ''q7'')]) demo_world_later) = Returned
   \<and> input_file demo_world_later = Some [''post-1'', ''  '', ''post-2'']
   \<and> read_posts demo_env [''post-1'', ''  '', ''post-2''] =
        Inr [JObj demo_post, JObj [(''id'', JStr ''q7'')]]
   \<and> (\<exists>recs. file_lines (output_file (fst (enrich_posts demo_env demo_world_later))) =
                 map (dumps_record demo_env) recs
             \<and> length recs \<le> length [JObj demo_post, JObj [(''id'', JStr ''q7'')]]
             \<and> (snd (enrich_posts demo_env demo_world_later) = Returned \<longrightarrow>
                   length recs = length [JObj demo_post, JObj [(''id'', JStr ''q7'')]])
             \<and> (\<forall>j<length recs. \<exists>p. [JObj demo_post, JObj [(''id'', JStr ''q7'')]] ! j = JObj p
                     \<and> enriched_record demo_env (length (requests demo_world_later) + j) p =
                         Some (recs ! j)
                     \<and> labels_valid (recs ! j)))"
proof -
  note T = enricher_labels_within_enums [of demo_env 1 "[(''id'', JStr ''q7'')]"
      "JStr ''sports''" "JStr ''positive''" JNull "JStr ''about a match''" demo_world_later 2 2
      "[''post-1'', ''  '', ''post-2'']" "[JObj demo_post, JObj [(''id'', JStr ''q7'')]]"]
  note T0 = enricher_labels_within_enums [of demo_env 0 "[(''id'', JStr ''q7'')]"
      "JStr ''sports''" "JStr ''positive''" JNull "JStr ''about a match''" demo_world_later 2 2
      "[''post-1'', ''  '', ''post-2'']" "[JObj demo_post, JObj [(''id'', JStr ''q7'')]]"]
  have len: "length (requests demo_world_later) = 1"
    by (simp add: demo_world_later_def)
  have h1: "client demo_env 1 (user_message demo_env (dict_get [(''id'', JStr ''q7'')] ''title'' (JStr []))
        (dict_get [(''id'', JStr ''q7'')] ''selftext'' (JStr []))) =
      Parsed (JStr ''sports'') (JStr ''positive'') JNull (JStr ''about a match'')"
    by (simp add: demo_env_def)
  have h0: "client demo_env 0 (user_message demo_env (dict_get [(''id'', JStr ''q7'')] ''title'' (JStr []))
        (dict_get [(''id'', JStr ''q7'')] ''selftext'' (JStr []))) = Raises"
    by (simp add: demo_env_def)
  have h2: "sliceable (dict_get [(''id'', JStr ''q7'')] ''title'' (JStr []))"
    by (simp add: dict_get_def)
  have h3: "\<not> is_list JNull" by simp
  have h4: "input_file demo_world_later = Some [''post-1'', ''  '', ''post-2'']"
    by (simp add: demo_world_later_def demo_world_def)
  have h5: "read_posts demo_env [''post-1'', ''  '', ''post-2''] =
        Inr [JObj demo_post, JObj [(''id'', JStr ''q7'')]]"
    by (rule demo_read)
  have A: "enriched_record demo_env 1 [(''id'', JStr ''q7'')] =
       Some [(''id'', JStr ''q7''), (''category'', JStr ''campus_life''),
             (''sentiment'', JStr ''positive''), (''keywords'', JList []),
             (''llm_description'', JStr ''about a match'')]"
    using conjunct1 [OF mp [OF conjunct1 [OF T] h1]] by (simp add: demo_coerced)
  have A0: "enriched_record demo_env 0 [(''id'', JStr ''q7'')] =
        Some (coerced_record (JStr ''campus_life'') (JStr ''neutral'') (JList [])
                (JStr ''Error during analysis'') [(''id'', JStr ''q7'')])"
    by (rule mp [OF conjunct1 [OF conjunct2 [OF T0]] h0])
  have h1': "client demo_env (length (requests demo_world_later))
        (user_message demo_env (dict_get [(''id'', JStr ''q7'')] ''title'' (JStr []))
        (dict_get [(''id'', JStr ''q7'')] ''selftext'' (JStr []))) =
      Parsed (JStr ''sports'') (JStr ''positive'') JNull (JStr ''about a match'')"
    using h1 len by simp
  note B = mp [OF conjunct1 [OF conjunct2 [OF conjunct2 [OF T]]] conjI [OF h2 h1']]
  have B1: "output_file (fst (enrich_one demo_env 2 2 (JObj [(''id'', JStr ''q7'')]) demo_world_later)) =
       Some (file_lines (output_file demo_world_later) @
         [dumps_record demo_env
            [(''id'', JStr ''q7''), (''category'', JStr ''campus_life''),
             (''sentiment'', JStr ''positive''), (''keywords'', JList []),
             (''llm_description'', JStr ''about a match'')]])"
    using conjunct1 [OF B] by (simp add: demo_coerced)
  have B2: "snd (enrich_one demo_env 2 2 (JObj [(''id'', JStr ''q7'')]) demo_world_later) = Returned"
    by (rule mp [OF conjunct2 [OF conjunct2 [OF B]] h3])
  note C = mp [OF conjunct2 [OF conjunct2 [OF conjunct2 [OF T]]] conjI [OF h4 h5]]
  from h1 A h0 A0 h2 len B1 h3 B2 h4 h5 C show ?thesis by (intro conjI)
qed

section \<open>Properties of the Collector\<close>

lemma extends_refl: "extends env st st"
  unfolding extends_def by (intro exI [of _ "[]"]) simp

lemma extends_trans:
  assumes "extends env st1 st2" and "extends env st2 st3"
  shows "extends env st1 st3"
proof -
  from assms(1) obtain ps cs us ls where a:
    "posts_file (fst st2) = posts_file (fst st1) @ ps"
    "comments_file (fst st2) = comments_file (fst st1) @ cs"
    "users_file (fst st2) = users_file (fst st1) @ us"
    "lookups (fst st2) = lookups (fst st1) @ ls"
    "subreddits_file (fst st2) = subreddits_file (fst st1)"
    "list_all (\<lambda>r. iso_day_ok env r \<and> author_id_null r) (ps @ cs)"
    "list_all user_key_ok us"
    "distinct (map user_name us)"
    "set (map user_name us) \<inter> snd st1 = {}"
    "snd st2 = snd st1 \<union> set (map user_name us)"
    "''[deleted]'' \<notin> set ls"
    unfolding extends_def by blast
  from assms(2) obtain ps' cs' us' ls' where b:
    "posts_file (fst st3) = posts_file (fst st2) @ ps'"
    "comments_file (fst st3) = comments_file (fst st2) @ cs'"
    "users_file (fst st3) = users_file (fst st2) @ us'"
    "lookups (fst st3) = lookups (fst st2) @ ls'"
    "subreddits_file (fst st3) = subreddits_file (fst st2)"
    "list_all (\<lambda>r. iso_day_ok env r \<and> author_id_null r) (ps' @ cs')"
    "list_all user_key_ok us'"
    "distinct (map user_name us')"
    "set (map user_name us') \<inter> snd st2 = {}"
    "snd st3 = snd st2 \<union> set (map user_name us')"
    "''[deleted]'' \<notin> set ls'"
    unfolding extends_def by blast
  have d: "distinct (map user_name (us @ us'))"
    using a(8,10) b(8,9) by auto
  have e: "set (map user_name (us @ us')) \<inter> snd st1 = {}"
    using a(9,10) b(9) by auto
  have f: "snd st3 = snd st1 \<union> set (map user_name (us @ us'))"
    using a(10) b(10) by auto
  have g: "list_all (\<lambda>r. iso_day_ok env r \<and> author_id_null r) ((ps @ ps') @ (cs @ cs'))"
    using a(6) b(6) by auto
  show ?thesis
    unfolding extends_def
    apply (rule exI [of _ "ps @ ps'"])
    apply (rule exI [of _ "cs @ cs'"])
    apply (rule exI [of _ "us @ us'"])
    apply (rule exI [of _ "ls @ ls'"])
    using a(1-5,7,11) b(1-5,7,11) d e f g by simp
qed

lemma safe_author_id: "fst (safe_author a) = None"
  by (auto simp: safe_author_def split: option.splits attr.splits)

lemma safe_author_name: "snd (safe_author a) \<noteq> []"
  by (auto simp: safe_author_def split: option.splits attr.splits)

lemma fetch_user_meta_lookups:
  "lookups (snd (fetch_user_meta env name w)) =
     (if name = [] \<or> name = ''[deleted]'' then lookups w else lookups w @ [name])"
  by (simp add: fetch_user_meta_def Let_def split: option.splits)

lemma fetch_user_meta_files:
  "posts_file (snd (fetch_user_meta env name w)) = posts_file w"
  "comments_file (snd (fetch_user_meta env name w)) = comments_file w"
  "users_file (snd (fetch_user_meta env name w)) = users_file w"
  "subreddits_file (snd (fetch_user_meta env name w)) = subreddits_file w"
  by (simp_all add: fetch_user_meta_def Let_def split: option.splits)

lemma user_rec_ok:
  "user_key_ok (user_rec None n k c)" "user_name (user_rec None n k c) = n"
  by (simp_all add: user_rec_def user_key_ok_def user_name_def)

lemma write_user_eq:
  "write_user env a_id n (w, seen) =
     ((snd (fetch_user_meta env n w))
        \<lparr>users_file := users_file w @
           [user_rec a_id n (fst (fst (fetch_user_meta env n w)))
              (snd (fst (fetch_user_meta env n w)))]\<rparr>,
      insert n seen)"
  by (simp add: write_user_def split_beta fetch_user_meta_files)

lemma write_user_extends:
  assumes "a_name \<notin> seen"
  shows "extends env (w, seen) (write_user env None a_name (w, seen))"
  unfolding extends_def
  apply (rule exI [of _ "[]"])
  apply (rule exI [of _ "[]"])
  apply (rule exI [of _ "[user_rec None a_name (fst (fst (fetch_user_meta env a_name w)))
              (snd (fst (fetch_user_meta env a_name w)))]"])
  apply (rule exI [of _ "if a_name = [] \<or> a_name = ''[deleted]'' then [] else [a_name]"])
  using assms
  by (auto simp: write_user_eq fetch_user_meta_files fetch_user_meta_lookups user_rec_ok)

lemma write_user_files:
  "posts_file (fst (write_user env a n (w, seen))) = posts_file w"
  "comments_file (fst (write_user env a n (w, seen))) = comments_file w"
  by (simp_all add: write_user_eq fetch_user_meta_files)

lemma comment_rec_ok:
  assumes "utc_date_isoformat env (c_created_utc c) = Some day"
  shows "iso_day_ok env (comment_rec link c day None n)"
    and "author_id_null (comment_rec link c day None n)"
  using assms by (simp_all add: comment_rec_def iso_day_ok_def author_id_null_def opt_str_def)

lemma post_rec_ok:
  assumes "utc_date_isoformat env (s_created_utc p) = Some day"
  shows "iso_day_ok env (post_rec p day None n)"
    and "author_id_null (post_rec p day None n)"
  using assms by (simp_all add: post_rec_def iso_day_ok_def author_id_null_def opt_str_def)

lemma append_comment_extends:
  assumes "iso_day_ok env r" and "author_id_null r"
  shows "extends env (w, seen) (w\<lparr>comments_file := comments_file w @ [r]\<rparr>, seen)"
  unfolding extends_def
  apply (rule exI [of _ "[]"])
  apply (rule exI [of _ "[r]"])
  apply (rule exI [of _ "[]"])
  apply (rule exI [of _ "[]"])
  using assms by simp

lemma append_post_extends:
  assumes "iso_day_ok env r" and "author_id_null r"
  shows "extends env (w, seen) (w\<lparr>posts_file := posts_file w @ [r]\<rparr>, seen)"
  unfolding extends_def
  apply (rule exI [of _ "[r]"])
  apply (rule exI [of _ "[]"])
  apply (rule exI [of _ "[]"])
  apply (rule exI [of _ "[]"])
  using assms by simp

lemma process_comment_extends:
  assumes "process_comment env link node st = (st', out)"
  shows "extends env st st'"
proof (cases node)
  case MoreComments
  with assms show ?thesis by (simp add: process_comment_def extends_refl)
next
  case (Comment c)
  obtain w seen where st: "st = (w, seen)" by (cases st)
  obtain n where au: "safe_author (c_author c) = (None, n)"
    using safe_author_id [of "c_author c"] by (cases "safe_author (c_author c)") simp
  show ?thesis
  proof (cases "utc_date_isoformat env (c_created_utc c)")
    case None
    with assms Comment st au show ?thesis
      by (simp add: process_comment_def iso_day_def extends_refl)
  next
    case (Some day)
    let ?w1 = "w\<lparr>comments_file := comments_file w @ [comment_rec link c day None n]\<rparr>"
    have e1: "extends env (w, seen) (?w1, seen)"
      by (rule append_comment_extends [OF comment_rec_ok [OF Some]])
    show ?thesis
    proof (cases "n \<noteq> [] \<and> n \<notin> seen \<and> n \<noteq> ''[deleted]''")
      case True
      with assms Comment st au Some have "st' = write_user env None n (?w1, seen)"
        by (simp add: process_comment_def iso_day_def)
      with True write_user_extends [of n seen env ?w1] e1 st show ?thesis
        using extends_trans by blast
    next
      case False
      with assms Comment st au Some have "st' = (?w1, seen)"
        by (auto simp: process_comment_def iso_day_def)
      with e1 st show ?thesis by simp
    qed
  qed
qed

lemma process_comments_extends:
  "process_comments env link nodes st = (st', out) \<Longrightarrow> extends env st st'"
proof (induction nodes arbitrary: st)
  case Nil
  then show ?case by (simp add: extends_refl)
next
  case (Cons node nodes)
  obtain st1 o1 where step: "process_comment env link node st = (st1, o1)"
    by (cases "process_comment env link node st")
  have e1: "extends env st st1" by (rule process_comment_extends [OF step])
  show ?case
  proof (cases o1)
    case Returned
    with Cons.prems step have "process_comments env link nodes st1 = (st', out)" by simp
    from Cons.IH [OF this] e1 show ?thesis using extends_trans by blast
  next
    case (Raised e)
    with Cons.prems step e1 show ?thesis by simp
  qed
qed

lemma process_submission_extends:
  assumes "process_submission env p st = (st', out)"
  shows "extends env st st'"
proof -
  obtain w seen where st: "st = (w, seen)" by (cases st)
  obtain n where au: "safe_author (s_author p) = (None, n)"
    using safe_author_id [of "s_author p"] by (cases "safe_author (s_author p)") simp
  show ?thesis
  proof (cases "utc_date_isoformat env (s_created_utc p)")
    case None
    with assms st au show ?thesis
      by (simp add: process_submission_def iso_day_def extends_refl)
  next
    case (Some day)
    let ?w1 = "w\<lparr>posts_file := posts_file w @ [post_rec p day None n]\<rparr>"
    let ?st2 = "if n \<noteq> [] \<and> n \<notin> seen then write_user env None n (?w1, seen) else (?w1, seen)"
    have e1: "extends env (w, seen) (?w1, seen)"
      by (rule append_post_extends [OF post_rec_ok [OF Some]])
    have e2: "extends env (?w1, seen) ?st2"
      using write_user_extends [of n seen env ?w1] by (simp add: extends_refl)
    from assms st au Some have "process_comments env (s_id p) (s_comments p) ?st2 = (st', out)"
      by (simp add: process_submission_def iso_day_def Let_def)
    from process_comments_extends [OF this] have e3: "extends env ?st2 st'" .
    from extends_trans [OF extends_trans [OF e1 e2] e3] st show ?thesis by simp
  qed
qed

lemma process_submissions_extends:
  "process_submissions env ps st = (st', out) \<Longrightarrow> extends env st st'"
proof (induction ps arbitrary: st)
  case Nil
  then show ?case by (simp add: extends_refl)
next
  case (Cons p ps)
  obtain st1 o1 where step: "process_submission env p st = (st1, o1)"
    by (cases "process_submission env p st")
  have e1: "extends env st st1" by (rule process_submission_extends [OF step])
  show ?case
  proof (cases o1)
    case Returned
    with Cons.prems step have "process_submissions env ps st1 = (st', out)" by simp
    from Cons.IH [OF this] e1 show ?thesis using extends_trans by blast
  next
    case (Raised e)
    with Cons.prems step e1 show ?thesis by simp
  qed
qed

lemma main_extends:
  "\<exists>seen. extends env (w\<lparr>subreddits_file := subreddits_file w @ [sub_meta env]\<rparr>, {})
            (fst (main env w), seen)"
proof -
  let ?w0 = "w\<lparr>subreddits_file := subreddits_file w @ [sub_meta env]\<rparr>"
  obtain w' seen out where
    run: "process_submissions env (take POST_LIMIT (new_submissions env)) (?w0, {}) = ((w', seen), out)"
    by (metis prod.exhaust)
  from process_submissions_extends [OF run] have "extends env (?w0, {}) (w', seen)" .
  moreover from run have "fst (main env w) = w'" by (simp add: main_def Let_def)
  ultimately show ?thesis by auto
qed

lemma main_appends:
  "\<exists>ps cs us ls.
        posts_file (fst (main env w)) = posts_file w @ ps \<and>
        comments_file (fst (main env w)) = comments_file w @ cs \<and>
        users_file (fst (main env w)) = users_file w @ us \<and>
        lookups (fst (main env w)) = lookups w @ ls \<and>
        list_all (\<lambda>r. iso_day_ok env r \<and> author_id_null r) (ps @ cs) \<and>
        list_all user_key_ok us \<and>
        distinct (map user_name us) \<and>
        ''[deleted]'' \<notin> set ls"
proof -
  from main_extends [of env w] obtain seen where
    "extends env (w\<lparr>subreddits_file := subreddits_file w @ [sub_meta env]\<rparr>, {})
            (fst (main env w), seen)" by blast
  then show ?thesis unfolding extends_def by (simp del: list_all_append) blast
qed

text \<open>The demo run, evaluated.\<close>
lemma demo_collector_run:
  "posts_file (fst (main demo_collector_env empty_cworld)) =
     [post_rec demo_submission ''1970-01-01'' None ''alice'']"
  "map user_name (users_file (fst (main demo_collector_env empty_cworld))) = [''alice'', ''bob'']"
  "lookups (fst (main demo_collector_env empty_cworld)) = [''alice'', ''bob'']"
  "length (comments_file (fst (main demo_collector_env empty_cworld))) = 3"
  by (simp_all add: main_def POST_LIMIT_def demo_collector_env_def empty_cworld_def
      demo_submission_def demo_comment_def process_submission_def process_comment_def
      safe_author_def iso_day_def write_user_eq fetch_user_meta_def Let_def raises_def
      attr_or_def user_rec_def user_name_def)

text \<open>
  Claim C5. Every post record and every comment record that a run of the Collector
  appends carries, as \<open>iso_day\<close>, the UTC calendar date that the date function gives
  for the \<open>created_utc\<close> of the same record: both fields come from the one timestamp.
\<close>
theorem iso_day_is_utc_date_of_created_utc:
  "\<exists>ps cs. posts_file (fst (main env w)) = posts_file w @ ps
        \<and> comments_file (fst (main env w)) = comments_file w @ cs
        \<and> list_all (iso_day_ok env) ps \<and> list_all (iso_day_ok env) cs"
proof -
  from main_appends [of env w] obtain ps cs where
    "posts_file (fst (main env w)) = posts_file w @ ps"
    "comments_file (fst (main env w)) = comments_file w @ cs"
    "list_all (\<lambda>r. iso_day_ok env r \<and> author_id_null r) (ps @ cs)"
    by blast
  then show ?thesis by (auto simp: list_all_iff)
qed

text \<open>The demo run writes one such post and three such comments.\<close>
theorem iso_day_is_utc_date_of_created_utc_witness:
  "(\<exists>ps cs. posts_file (fst (main demo_collector_env empty_cworld)) = posts_file empty_cworld @ ps
        \<and> comments_file (fst (main demo_collector_env empty_cworld)) = comments_file empty_cworld @ cs
        \<and> list_all (iso_day_ok demo_collector_env) ps \<and> list_all (iso_day_ok demo_collector_env) cs)
   \<and> posts_file (fst (main demo_collector_env empty_cworld)) =
       [post_rec demo_submission ''1970-01-01'' None ''alice'']
   \<and> length (comments_file (fst (main demo_collector_env empty_cworld))) = 3"
  by (rule conjI [OF iso_day_is_utc_date_of_created_utc
        conjI [OF demo_collector_run(1) demo_collector_run(4)]])

text \<open>
  Claim C9. \<open>safe_author\<close> gives no author id, whatever the author; so every post and
  comment record appended by a run has \<open>author_id\<close> null, and the \<open>id\<close> of every
  user record appended is \<open>"name:"\<close> followed by its name.
\<close>
theorem author_id_always_none:
  "fst (safe_author author) = None
   \<and> (\<exists>ps cs us. posts_file (fst (main env w)) = posts_file w @ ps
        \<and> comments_file (fst (main env w)) = comments_file w @ cs
        \<and> users_file (fst (main env w)) = users_file w @ us
        \<and> list_all author_id_null ps \<and> list_all author_id_null cs
        \<and> list_all user_key_ok us)"
proof -
  from main_appends [of env w] obtain ps cs us where
    "posts_file (fst (main env w)) = posts_file w @ ps"
    "comments_file (fst (main env w)) = comments_file w @ cs"
    "users_file (fst (main env w)) = users_file w @ us"
    "list_all (\<lambda>r. iso_day_ok env r \<and> author_id_null r) (ps @ cs)"
    "list_all user_key_ok us"
    by blast
  then have "\<exists>ps cs us. posts_file (fst (main env w)) = posts_file w @ ps
        \<and> comments_file (fst (main env w)) = comments_file w @ cs
        \<and> users_file (fst (main env w)) = users_file w @ us
        \<and> list_all author_id_null ps \<and> list_all author_id_null cs
        \<and> list_all user_key_ok us"
    by (auto simp: list_all_iff)
  with safe_author_id show ?thesis by blast
qed

theorem author_id_always_none_witness:
  "(fst (safe_author (Some (Redditor (Attr (Some ''alice''))))) = None
   \<and> (\<exists>ps cs us. posts_file (fst (main demo_collector_env empty_cworld)) = posts_file empty_cworld @ ps
        \<and> comments_file (fst (main demo_collector_env empty_cworld)) = comments_file empty_cworld @ cs
        \<and> users_file (fst (main demo_collector_env empty_cworld)) = users_file empty_cworld @ us
        \<and> list_all author_id_null ps \<and> list_all author_id_null cs
        \<and> list_all user_key_ok us))
   \<and> map user_name (users_file (fst (main demo_collector_env empty_cworld))) = [''alice'', ''bob'']"
  by (rule conjI [OF author_id_always_none demo_collector_run(2)])

lemma process_comment_no_user:
  assumes "snd (safe_author (c_author c)) = ''[deleted]'' \<or> snd (safe_author (c_author c)) \<in> seen"
  shows "users_file (fst (fst (process_comment env link (Comment c) (w, seen)))) = users_file w"
    and "lookups (fst (fst (process_comment env link (Comment c) (w, seen)))) = lookups w"
  using assms
  by (auto simp: process_comment_def Let_def split: prod.splits option.splits)

text \<open>
  Claim C7. The user records appended by one run have pairwise distinct names, and the
  metadata service is never asked about \<open>[deleted]\<close>. A comment whose author is named
  \<open>[deleted]\<close>, or is in the set of names seen, adds no user record and asks the
  service nothing.
\<close>
theorem one_user_row_per_name:
  "(\<exists>us ls. users_file (fst (main env w)) = users_file w @ us
        \<and> distinct (map user_name us)
        \<and> lookups (fst (main env w)) = lookups w @ ls
        \<and> ''[deleted]'' \<notin> set ls)
   \<and> (snd (safe_author (c_author c)) = ''[deleted]'' \<or> snd (safe_author (c_author c)) \<in> seen \<longrightarrow>
        users_file (fst (fst (process_comment env link (Comment c) (w0, seen)))) = users_file w0
      \<and> lookups (fst (fst (process_comment env link (Comment c) (w0, seen)))) = lookups w0)"
proof (intro conjI impI)
  from main_appends [of env w]
  show "\<exists>us ls. users_file (fst (main env w)) = users_file w @ us
        \<and> distinct (map user_name us)
        \<and> lookups (fst (main env w)) = lookups w @ ls
        \<and> ''[deleted]'' \<notin> set ls"
    by blast
next
  assume a: "snd (safe_author (c_author c)) = ''[deleted]'' \<or> snd (safe_author (c_author c)) \<in> seen"
  show "users_file (fst (fst (process_comment env link (Comment c) (w0, seen)))) = users_file w0"
    by (rule process_comment_no_user(1) [OF a])
  show "lookups (fst (fst (process_comment env link (Comment c) (w0, seen)))) = lookups w0"
    by (rule process_comment_no_user(2) [OF a])
qed

theorem one_user_row_per_name_witness:
  "(\<exists>us ls. users_file (fst (main demo_collector_env empty_cworld)) = users_file empty_cworld @ us
        \<and> distinct (map user_name us)
        \<and> lookups (fst (main demo_collector_env empty_cworld)) = lookups empty_cworld @ ls
        \<and> ''[deleted]'' \<notin> set ls)
   \<and> (snd (safe_author (c_author (demo_comment ''c2'' (Some ''t1_c1'') None))) = ''[deleted]''
        \<or> snd (safe_author (c_author (demo_comment ''c2'' (Some ''t1_c1'') None))) \<in> {''alice''})
   \<and> users_file (fst (fst (process_comment demo_collector_env ''p1''
          (Comment (demo_comment ''c2'' (Some ''t1_c1'') None)) (empty_cworld, {''alice''}))))
       = users_file empty_cworld
   \<and> lookups (fst (fst (process_comment demo_collector_env ''p1''
          (Comment (demo_comment ''c2'' (Some ''t1_c1'') None)) (empty_cworld, {''alice''}))))
       = lookups empty_cworld
   \<and> map user_name (users_file (fst (main demo_collector_env empty_cworld))) = [''alice'', ''bob'']"
proof -
  note T = one_user_row_per_name [of demo_collector_env empty_cworld
      "demo_comment ''c2'' (Some ''t1_c1'') None" "{''alice''}" "''p1''" empty_cworld]
  have h: "snd (safe_author (c_author (demo_comment ''c2'' (Some ''t1_c1'') None))) = ''[deleted]''
        \<or> snd (safe_author (c_author (demo_comment ''c2'' (Some ''t1_c1'') None))) \<in> {''alice''}"
    by (simp add: demo_comment_def safe_author_def)
  note U = mp [OF conjunct2 [OF T] h]
  from conjunct1 [OF T] h conjunct1 [OF U] conjunct2 [OF U] demo_collector_run(2)
  show ?thesis by (intro conjI)
qed

lemma parent_id_prefixed:
  assumes "CHR ''_'' \<notin> set pre"
  shows "parent_id_field (Some (pre @ CHR ''_'' # rest)) = JStr rest"
proof -
  from assms have p: "\<forall>x\<in>set pre. x \<noteq> CHR ''_''" by blast
  then have "takeWhile (\<lambda>c. c \<noteq> CHR ''_'') (pre @ CHR ''_'' # rest) = pre"
    "dropWhile (\<lambda>c. c \<noteq> CHR ''_'') (pre @ CHR ''_'' # rest) = CHR ''_'' # rest"
    by simp_all
  then show ?thesis by (simp add: parent_id_field_def split_once_def)
qed

lemma process_comment_record:
  assumes "iso_day env (c_created_utc c) = Some day"
  shows "comments_file (fst (fst (process_comment env link (Comment c) (w, seen)))) =
           comments_file w @ [comment_rec link c day (fst (safe_author (c_author c)))
                                (snd (safe_author (c_author c)))]"
  using assms
  by (simp add: process_comment_def Let_def split_beta write_user_files)

text \<open>
  Claim C6. An absent parent identifier is stored as null. An identifier with an
  underscore loses everything up to and including its first underscore; a non-empty one
  without an underscore is kept. The comment record written has this value as its
  \<open>parent_id\<close>.
\<close>
theorem parent_id_type_prefix_removed:
  "parent_id_field None = JNull
   \<and> (CHR ''_'' \<notin> set pre \<longrightarrow> parent_id_field (Some (pre @ CHR ''_'' # rest)) = JStr rest)
   \<and> (s \<noteq> [] \<and> CHR ''_'' \<notin> set s \<longrightarrow> parent_id_field (Some s) = JStr s)
   \<and> (iso_day env (c_created_utc c) = Some day \<longrightarrow>
        (\<exists>r. comments_file (fst (fst (process_comment env link (Comment c) (w, seen)))) =
                comments_file w @ [r]
            \<and> field r ''parent_id'' = Some (parent_id_field (c_parent_id c))))"
proof (intro conjI impI)
  show "parent_id_field None = JNull" by (simp add: parent_id_field_def)
next
  assume "CHR ''_'' \<notin> set pre"
  then show "parent_id_field (Some (pre @ CHR ''_'' # rest)) = JStr rest"
    by (rule parent_id_prefixed)
next
  assume "s \<noteq> [] \<and> CHR ''_'' \<notin> set s"
  then show "parent_id_field (Some s) = JStr s"
    by (simp add: parent_id_field_def split_once_def)
next
  assume "iso_day env (c_created_utc c) = Some day"
  from process_comment_record [OF this]
  show "\<exists>r. comments_file (fst (fst (process_comment env link (Comment c) (w, seen)))) =
                comments_file w @ [r]
            \<and> field r ''parent_id'' = Some (parent_id_field (c_parent_id c))"
    by (simp add: comment_rec_def field_def)
qed

theorem parent_id_type_prefix_removed_witness:
  "parent_id_field None = JNull
   \<and> CHR ''_'' \<notin> set ''t1''
   \<and> parent_id_field (Some (''t1'' @ CHR ''_'' # ''c1_x'')) = JStr ''c1_x''
   \<and> (''abc'' \<noteq> [] \<and> CHR ''_'' \<notin> set ''abc'')
   \<and> parent_id_field (Some ''abc'') = JStr ''abc''
   \<and> iso_day demo_collector_env (c_created_utc (demo_comment ''c2'' (Some ''t1_c1'') None))
       = Some ''1970-01-02''
   \<and> (\<exists>r. comments_file (fst (fst (process_comment demo_collector_env ''p1''
                (Comment (demo_comment ''c2'' (Some ''t1_c1'') None)) (empty_cworld, {})))) =
                comments_file empty_cworld @ [r]
            \<and> field r ''parent_id'' =
                Some (parent_id_field (c_parent_id (demo_comment ''c2'' (Some ''t1_c1'') None))))"
proof -
  note T = parent_id_type_prefix_removed [of "''t1''" "''c1_x''" "''abc''" demo_collector_env
      "demo_comment ''c2'' (Some ''t1_c1'') None" "''1970-01-02''" "''p1''" empty_cworld "{}"]
  have h1: "CHR ''_'' \<notin> set ''t1''" by simp
  have h2: "''abc'' \<noteq> [] \<and> CHR ''_'' \<notin> set ''abc''" by simp
  have h3: "iso_day demo_collector_env (c_created_utc (demo_comment ''c2'' (Some ''t1_c1'') None))
       = Some ''1970-01-02''"
    by (simp add: iso_day_def demo_collector_env_def demo_comment_def)
  have a: "parent_id_field None = JNull" by (rule conjunct1 [OF T])
  have b: "parent_id_field (Some (''t1'' @ CHR ''_'' # ''c1_x'')) = JStr ''c1_x''"
    by (rule mp [OF conjunct1 [OF conjunct2 [OF T]] h1])
  have c: "parent_id_field (Some ''abc'') = JStr ''abc''"
    by (rule mp [OF conjunct1 [OF conjunct2 [OF conjunct2 [OF T]]] h2])
  have d: "\<exists>r. comments_file (fst (fst (process_comment demo_collector_env ''p1''
                (Comment (demo_comment ''c2'' (Some ''t1_c1'') None)) (empty_cworld, {})))) =
                comments_file empty_cworld @ [r]
            \<and> field r ''parent_id'' =
                Some (parent_id_field (c_parent_id (demo_comment ''c2'' (Some ''t1_c1'') None)))"
    by (rule mp [OF conjunct2 [OF conjunct2 [OF conjunct2 [OF T]]] h3])
  from a h1 b conjunct1 [OF h2] conjunct2 [OF h2] c h3 d show ?thesis by (intro conjI)
qed

section \<open>Properties of the schema initializer\<close>

lemma matches_on_match: "matches_category name (on_match desc c) = matches_category name c"
  by (simp add: matches_category_def on_match_def update_conv')

lemma described_on_match:
  "map_of (props (on_match desc c)) ''description'' =
     Some (coalesce (map_of (props c) ''description'') desc)"
  by (simp add: on_match_def update_conv')

lemma on_match_described:
  "map_of (props c) ''description'' = Some d \<Longrightarrow> on_match desc c = c"
  by (simp add: on_match_def coalesce_def update_triv)

lemma merge_category_seeded_id:
  assumes "seeded name g"
  shows "merge_category name desc g = g"
proof -
  from assms have ex: "list_ex (matches_category name) g"
    and all: "\<forall>c\<in>set g. matches_category name c \<longrightarrow> map_of (props c) ''description'' \<noteq> None"
    by (simp_all add: seeded_def list_all_iff)
  have "map (\<lambda>c. if matches_category name c then on_match desc c else c) g = map (\<lambda>c. c) g"
  proof (rule map_cong [OF refl])
    fix c assume c: "c \<in> set g"
    show "(if matches_category name c then on_match desc c else c) = c"
    proof (cases "matches_category name c")
      case True
      with all c obtain d where "map_of (props c) ''description'' = Some d" by auto
      then show ?thesis by (simp add: on_match_described)
    next
      case False
      then show ?thesis by simp
    qed
  qed
  with ex show ?thesis by (simp add: merge_category_def)
qed

lemma seeded_map:
  assumes "list_ex (matches_category name) g"
    and "\<forall>c\<in>set g. matches_category name (f c) = matches_category name c"
    and "\<forall>c\<in>set g. matches_category name c \<longrightarrow> map_of (props (f c)) ''description'' \<noteq> None"
  shows "seeded name (map f g)"
proof -
  from assms(1) obtain c where c: "c \<in> set g" "matches_category name c"
    by (auto simp: list_ex_iff)
  with assms(2) have "f c \<in> set (map f g)" "matches_category name (f c)" by auto
  then have ex: "list_ex (matches_category name) (map f g)"
    unfolding list_ex_iff by blast
  have "\<forall>x\<in>set (map f g). matches_category name x \<longrightarrow> map_of (props x) ''description'' \<noteq> None"
    using assms(2,3) by auto
  with ex show ?thesis by (simp add: seeded_def list_all_iff)
qed

lemma merge_category_seeds: "seeded name (merge_category name desc g)"
proof (cases "list_ex (matches_category name) g")
  case True
  have "seeded name (map (\<lambda>c. if matches_category name c then on_match desc c else c) g)"
    by (rule seeded_map [OF True]) (simp_all add: matches_on_match described_on_match)
  with True show ?thesis by (simp add: merge_category_def)
next
  case False
  then show ?thesis
    by (auto simp: seeded_def merge_category_def list_ex_iff list_all_iff matches_category_def
          on_create_def)
qed

lemma merge_category_keeps_seeded:
  assumes "seeded name g"
  shows "seeded name (merge_category name' desc g)"
proof -
  from assms have ex: "list_ex (matches_category name) g"
    and all: "\<forall>c\<in>set g. matches_category name c \<longrightarrow> map_of (props c) ''description'' \<noteq> None"
    by (simp_all add: seeded_def list_all_iff)
  show ?thesis
  proof (cases "list_ex (matches_category name') g")
    case True
    have "seeded name (map (\<lambda>c. if matches_category name' c then on_match desc c else c) g)"
      by (rule seeded_map [OF ex]) (use all in \<open>simp_all add: matches_on_match described_on_match\<close>)
    with True show ?thesis by (simp add: merge_category_def)
  next
    case False
    have "list_ex (matches_category name) (g @ [on_create name' desc])"
      using ex by (auto simp: list_ex_iff)
    moreover have "\<forall>c\<in>set (g @ [on_create name' desc]).
        matches_category name c \<longrightarrow> map_of (props c) ''description'' \<noteq> None"
      using all by (auto simp: on_create_def)
    ultimately show ?thesis using False
      by (simp add: seeded_def merge_category_def list_all_iff)
  qed
qed

lemma fold_merge_keeps_seeded:
  "seeded name g \<Longrightarrow> seeded name (fold (\<lambda>(n, d). merge_category n d) cs g)"
  by (induction cs arbitrary: g) (auto simp: merge_category_keeps_seeded)

lemma fold_merge_seeds:
  "(name, desc) \<in> set cs \<Longrightarrow> seeded name (fold (\<lambda>(n, d). merge_category n d) cs g)"
proof (induction cs arbitrary: g)
  case Nil
  then show ?case by simp
next
  case (Cons c cs)
  show ?case
  proof (cases "c = (name, desc)")
    case True
    then show ?thesis
      using fold_merge_keeps_seeded [OF merge_category_seeds] by simp
  next
    case False
    with Cons show ?thesis by simp
  qed
qed

lemma fold_merge_seeded_id:
  "\<forall>(n, d)\<in>set cs. seeded n g \<Longrightarrow> fold (\<lambda>(n, d). merge_category n d) cs g = g"
  by (induction cs) (auto simp: merge_category_seeded_id)

lemma seed_categories_idem: "seed_categories (seed_categories g) = seed_categories g"
proof -
  have "\<forall>(n, d)\<in>set CATEGORIES. seeded n (seed_categories g)"
    unfolding seed_categories_def using fold_merge_seeds by fastforce
  then show ?thesis
    using fold_merge_seeded_id [of CATEGORIES "seed_categories g"]
    by (simp add: seed_categories_def)
qed

lemma merge_category_nth:
  assumes "i < length g"
  shows "labels (merge_category name desc g ! i) = labels (g ! i)"
    and "map_of (props (g ! i)) ''description'' = Some d \<Longrightarrow>
         map_of (props (merge_category name desc g ! i)) ''description'' = Some d"
    and "k \<noteq> ''description'' \<Longrightarrow>
         map_of (props (merge_category name desc g ! i)) k = map_of (props (g ! i)) k"
  using assms
  by (auto simp: merge_category_def nth_append update_conv' coalesce_def on_match_def)

lemma merge_category_length:
  "length g \<le> length (merge_category name desc g)"
  "length (merge_category name desc g) \<le> Suc (length g)"
  by (simp_all add: merge_category_def)

lemma fold_merge_nth:
  "i < length g \<Longrightarrow>
     length g \<le> length (fold (\<lambda>(n, d). merge_category n d) cs g) \<and>
     length (fold (\<lambda>(n, d). merge_category n d) cs g) \<le> length g + length cs \<and>
     labels (fold (\<lambda>(n, d). merge_category n d) cs g ! i) = labels (g ! i) \<and>
     (map_of (props (g ! i)) ''description'' = Some d \<longrightarrow>
        map_of (props (fold (\<lambda>(n, d). merge_category n d) cs g ! i)) ''description'' = Some d) \<and>
     (k \<noteq> ''description'' \<longrightarrow>
        map_of (props (fold (\<lambda>(n, d). merge_category n d) cs g ! i)) k = map_of (props (g ! i)) k)"
proof (induction cs arbitrary: g)
  case Nil
  then show ?case by simp
next
  case (Cons c cs)
  obtain n dsc where c: "c = (n, dsc)" by (cases c)
  let ?g1 = "merge_category n dsc g"
  note L = merge_category_length [where g = g and name = n and desc = dsc]
  from Cons.prems L(1) have i1: "i < length ?g1" by simp
  note IH = Cons.IH [OF i1]
  note M = merge_category_nth(1) [OF Cons.prems, where name = n and desc = dsc]
    merge_category_nth(2) [OF Cons.prems, where name = n and desc = dsc and d = d]
    merge_category_nth(3) [OF Cons.prems, where name = n and desc = dsc and k = k]
  from IH M L show ?case
    by (simp add: c)
qed

lemma fold_merge_length:
  "length g \<le> length (fold (\<lambda>(n, d). merge_category n d) cs g) \<and>
   length (fold (\<lambda>(n, d). merge_category n d) cs g) \<le> length g + length cs"
proof (induction cs arbitrary: g)
  case Nil
  then show ?case by simp
next
  case (Cons c cs)
  obtain n dsc where c: "c = (n, dsc)" by (cases c)
  note L = merge_category_length [where g = g and name = n and desc = dsc]
  from Cons.IH [of "merge_category n dsc g"] L show ?case by (simp add: c)
qed

lemma seed_categories_seeded:
  "seeded ''campus_life'' (seed_categories g)"
  "seeded ''academics'' (seed_categories g)"
  "seeded ''admissions'' (seed_categories g)"
  unfolding seed_categories_def
  by (rule fold_merge_seeds, simp add: CATEGORIES_def)+

lemma seed_categories_empty:
  "seed_categories [] = map (\<lambda>(n, d). on_create n d) CATEGORIES"
  by (simp add: seed_categories_def CATEGORIES_def merge_category_def matches_category_def
        on_create_def)

lemma matches_touch: "matches_category n' (touch n d c) = matches_category n' c"
  by (simp add: touch_def matches_on_match)

lemma merge_category_touch:
  "merge_category n d g =
     map (touch n d) g @ (if list_ex (matches_category n) g then [] else [on_create n d])"
proof (cases "list_ex (matches_category n) g")
  case True
  then show ?thesis by (simp add: merge_category_def touch_def)
next
  case False
  then have "\<forall>c\<in>set g. touch n d c = c" by (auto simp: list_ex_iff touch_def)
  then have "map (touch n d) g = g" by (simp add: map_idI)
  with False show ?thesis by (simp add: merge_category_def)
qed

lemma on_create_matches: "matches_category n' (on_create n d) = (n' = n)"
  by (auto simp: matches_category_def on_create_def)

lemma fold_touch_on_create:
  "n \<notin> fst ` set cs \<Longrightarrow> fold (\<lambda>(n', d'). touch n' d') cs (on_create n d) = on_create n d"
proof (induction cs)
  case Nil
  then show ?case by simp
next
  case (Cons p cs)
  obtain n' d' where p: "p = (n', d')" by (cases p)
  with Cons.prems have "n' \<noteq> n" "n \<notin> fst ` set cs" by auto
  then have "touch n' d' (on_create n d) = on_create n d"
    by (simp add: touch_def on_create_matches)
  with Cons.IH [OF \<open>n \<notin> fst ` set cs\<close>] show ?case by (simp add: p)
qed

lemma list_ex_merge_other:
  assumes "n' \<noteq> n"
  shows "list_ex (matches_category n') (merge_category n d g) = list_ex (matches_category n') g"
  using assms
  by (auto simp: merge_category_touch list_ex_iff matches_touch on_create_matches)

lemma fold_merge_char:
  "distinct (map fst cs) \<Longrightarrow>
   fold (\<lambda>(n, d). merge_category n d) cs g =
     map (fold (\<lambda>(n, d). touch n d) cs) g @
     map (\<lambda>(n, d). on_create n d) (filter (\<lambda>(n, d). \<not> list_ex (matches_category n) g) cs)"
proof (induction cs arbitrary: g)
  case Nil
  then show ?case by (simp add: map_idI)
next
  case (Cons p cs)
  obtain n d where p: "p = (n, d)" by (cases p)
  from Cons.prems p have fresh: "n \<notin> fst ` set cs" and dist: "distinct (map fst cs)" by auto
  let ?g1 = "merge_category n d g"
  have filt: "filter (\<lambda>(n', d'). \<not> list_ex (matches_category n') ?g1) cs =
              filter (\<lambda>(n', d'). \<not> list_ex (matches_category n') g) cs"
  proof (rule filter_cong [OF refl])
    fix q assume q: "q \<in> set cs"
    obtain n' d' where q': "q = (n', d')" by (cases q)
    with q fresh have "n' \<noteq> n" by force
    then show "(case q of (n', d') \<Rightarrow> \<not> list_ex (matches_category n') ?g1) =
               (case q of (n', d') \<Rightarrow> \<not> list_ex (matches_category n') g)"
      by (simp add: q' list_ex_merge_other)
  qed
  have new: "map (fold (\<lambda>(n, d). touch n d) cs)
               (if list_ex (matches_category n) g then [] else [on_create n d]) =
             (if list_ex (matches_category n) g then [] else [on_create n d])"
    by (simp add: fold_touch_on_create [OF fresh])
  have "fold (\<lambda>(n, d). merge_category n d) (p # cs) g =
        fold (\<lambda>(n, d). merge_category n d) cs ?g1"
    by (simp add: p)
  also have "\<dots> = map (fold (\<lambda>(n, d). touch n d) cs) ?g1 @
      map (\<lambda>(n, d). on_create n d) (filter (\<lambda>(n', d'). \<not> list_ex (matches_category n') g) cs)"
    using Cons.IH [OF dist, of ?g1] filt by simp
  also have "map (fold (\<lambda>(n, d). touch n d) cs) ?g1 =
      map (fold (\<lambda>(n, d). touch n d) (p # cs)) g @
      (if list_ex (matches_category n) g then [] else [on_create n d])"
    using new by (simp add: merge_category_touch p)
  finally show ?case by (simp add: p)
qed

lemma update_absent: "map_of ps k = None \<Longrightarrow> AList.update k v ps = ps @ [(k, v)]"
  by (induction ps) (auto split: if_splits)

lemma on_match_cases:
  "on_match d c =
     (case map_of (props c) ''description'' of
        None \<Rightarrow> c\<lparr>props := props c @ [(''description'', d)]\<rparr>
      | Some x \<Rightarrow> c)"
  by (auto simp: on_match_def coalesce_def update_absent update_triv split: option.splits)

lemma map_of_append_other:
  "k \<noteq> k' \<Longrightarrow> map_of (ps @ [(k', v)]) k = map_of ps k"
  by (induction ps) auto

lemma fold_touch_filled: "fold (\<lambda>(n, d). touch n d) CATEGORIES c = filled c"
proof (cases "map_of (props c) ''description''")
  case (Some x)
  then show ?thesis
    by (simp add: CATEGORIES_def touch_def on_match_cases filled_def split: option.splits)
next
  case None
  show ?thesis
  proof (cases "''Category'' \<in> set (labels c)")
    case False
    with None show ?thesis
      by (simp add: CATEGORIES_def touch_def matches_category_def filled_def split: option.splits)
  next
    case True
    show ?thesis
    proof (cases "map_of (props c) ''name''")
      case nn: None
      with None True show ?thesis
        by (simp add: CATEGORIES_def touch_def matches_category_def filled_def)
    next
      case (Some n)
      with None True show ?thesis
        by (simp add: CATEGORIES_def touch_def matches_category_def filled_def on_match_cases
              map_of_append_other)
    qed
  qed
qed

lemma on_create_row: "on_create n d = category_row n d"
  by (simp add: on_create_def category_row_def)

lemma seed_categories_char:
  "seed_categories g =
     map filled g @
     map (\<lambda>(n, d). category_row n d)
       (filter (\<lambda>(n, d). \<not> list_ex (matches_category n) g) CATEGORIES)"
proof -
  have "distinct (map fst CATEGORIES)" by (simp add: CATEGORIES_def)
  from fold_merge_char [OF this, of g] show ?thesis
    by (simp add: seed_categories_def fold_touch_filled on_create_row cong: map_cong)
qed

lemma seed_categories_nth_filled:
  "i < length g \<Longrightarrow> seed_categories g ! i = filled (g ! i)"
  by (simp add: seed_categories_char nth_append)

lemma filled_absent:
  assumes "''Category'' \<in> set (labels c)" and "map_of (props c) ''name'' = Some n"
    and "map_of CATEGORIES n = Some d" and "map_of (props c) ''description'' = None"
  shows "map_of (props (filled c)) ''description'' = Some d"
  using assms by (simp add: filled_def map_add_def)

lemma seed_categories_empty_rows:
  "seed_categories [] =
     [\<lparr>labels = [''Category''],
       props = [(''name'', ''campus_life''),
                (''description'', ''Student life, events, hostel/food, facilities, clubs, sports, social activities'')]\<rparr>,
      \<lparr>labels = [''Category''],
       props = [(''name'', ''academics''),
                (''description'', ''Courses, exams, professors, assignments, grades, GPA, schedules'')]\<rparr>,
      \<lparr>labels = [''Category''],
       props = [(''name'', ''admissions''),
                (''description'', ''Applications, entrance tests, merit lists, scholarships, program selection'')]\<rparr>]"
  by (simp add: seed_categories_empty CATEGORIES_def on_create_def)

lemma CATEGORIES_rows:
  "CATEGORIES =
     [(''campus_life'', ''Student life, events, hostel/food, facilities, clubs, sports, social activities''),
      (''academics'', ''Courses, exams, professors, assignments, grades, GPA, schedules''),
      (''admissions'', ''Applications, entrance tests, merit lists, scholarships, program selection'')]"
  by (simp add: CATEGORIES_def)

lemma demo_graph_seeded:
  "seed_categories demo_graph =
     [\<lparr>labels = [''Post''], props = [(''id'', ''p1'')]\<rparr>,
      \<lparr>labels = [''Category''], props = [(''name'', ''academics''), (''description'', ''Coursework'')]\<rparr>,
      \<lparr>labels = [''Category''],
       props = [(''name'', ''admissions''),
                (''description'', ''Applications, entrance tests, merit lists, scholarships, program selection'')]\<rparr>,
      \<lparr>labels = [''Category''],
       props = [(''name'', ''campus_life''),
                (''description'', ''Student life, events, hostel/food, facilities, clubs, sports, social activities'')]\<rparr>]"
  by (simp add: seed_categories_def CATEGORIES_def merge_category_def matches_category_def
        on_create_def on_match_def demo_graph_def coalesce_def)

text \<open>
  Claim C8. Seeding twice gives the database that seeding once gives, so the second run
  creates no node and changes no property. The seed is the three fixed name and
  description pairs. On an empty database the seeding creates exactly their three rows.
  On any database it leaves every node in place, gives the seed description of its
  category to a category node that has none, changes nothing else, and appends the row of
  each of the three categories that had no node, and no other node. So each of the three
  is present afterwards with a description, at most three nodes are added, no node is
  removed or relabelled, no property other than \<open>description\<close> is touched, and a
  description that was present stays what it was.
\<close>
theorem seed_categories_idempotent:
  "seed_categories (seed_categories g) = seed_categories g
   \<and> CATEGORIES =
       [(''campus_life'', ''Student life, events, hostel/food, facilities, clubs, sports, social activities''),
        (''academics'', ''Courses, exams, professors, assignments, grades, GPA, schedules''),
        (''admissions'', ''Applications, entrance tests, merit lists, scholarships, program selection'')]
   \<and> seed_categories [] =
       [\<lparr>labels = [''Category''],
         props = [(''name'', ''campus_life''),
                  (''description'', ''Student life, events, hostel/food, facilities, clubs, sports, social activities'')]\<rparr>,
        \<lparr>labels = [''Category''],
         props = [(''name'', ''academics''),
                  (''description'', ''Courses, exams, professors, assignments, grades, GPA, schedules'')]\<rparr>,
        \<lparr>labels = [''Category''],
         props = [(''name'', ''admissions''),
                  (''description'', ''Applications, entrance tests, merit lists, scholarships, program selection'')]\<rparr>]
   \<and> seed_categories g =
       map filled g @
       map (\<lambda>(n, d). category_row n d)
         (filter (\<lambda>(n, d). \<not> list_ex (matches_category n) g) CATEGORIES)
   \<and> seeded ''campus_life'' (seed_categories g)
   \<and> seeded ''academics'' (seed_categories g)
   \<and> seeded ''admissions'' (seed_categories g)
   \<and> length g \<le> length (seed_categories g)
   \<and> length (seed_categories g) \<le> length g + 3
   \<and> (i < length g \<longrightarrow> labels (seed_categories g ! i) = labels (g ! i))
   \<and> (i < length g \<and> k \<noteq> ''description'' \<longrightarrow>
        map_of (props (seed_categories g ! i)) k = map_of (props (g ! i)) k)
   \<and> (i < length g \<and> map_of (props (g ! i)) ''description'' = Some d \<longrightarrow>
        map_of (props (seed_categories g ! i)) ''description'' = Some d)
   \<and> (i < length g \<and> ''Category'' \<in> set (labels (g ! i))
        \<and> map_of (props (g ! i)) ''name'' = Some n \<and> map_of CATEGORIES n = Some sd
        \<and> map_of (props (g ! i)) ''description'' = None \<longrightarrow>
        map_of (props (seed_categories g ! i)) ''description'' = Some sd)"
proof -
  have "length CATEGORIES = 3" by (simp add: CATEGORIES_def)
  with fold_merge_length [of g CATEGORIES]
  have len: "length g \<le> length (seed_categories g) \<and> length (seed_categories g) \<le> length g + 3"
    unfolding seed_categories_def by simp
  have nth: "i < length g \<Longrightarrow>
      labels (seed_categories g ! i) = labels (g ! i) \<and>
      (map_of (props (g ! i)) ''description'' = Some d \<longrightarrow>
         map_of (props (seed_categories g ! i)) ''description'' = Some d) \<and>
      (k \<noteq> ''description'' \<longrightarrow>
         map_of (props (seed_categories g ! i)) k = map_of (props (g ! i)) k)"
    using fold_merge_nth [of i g CATEGORIES d k] by (simp add: seed_categories_def)
  have fill: "i < length g \<and> ''Category'' \<in> set (labels (g ! i))
        \<and> map_of (props (g ! i)) ''name'' = Some n \<and> map_of CATEGORIES n = Some sd
        \<and> map_of (props (g ! i)) ''description'' = None \<longrightarrow>
        map_of (props (seed_categories g ! i)) ''description'' = Some sd"
    by (auto simp: seed_categories_nth_filled intro: filled_absent)
  from seed_categories_idem [of g] CATEGORIES_rows seed_categories_empty_rows
    seed_categories_char [of g] seed_categories_seeded [of g] len nth fill
  show ?thesis by blast
qed

theorem seed_categories_idempotent_witness:
  "seed_categories (seed_categories demo_graph) = seed_categories demo_graph
   \<and> seed_categories demo_graph =
       map filled demo_graph @
       map (\<lambda>(n, d). category_row n d)
         (filter (\<lambda>(n, d). \<not> list_ex (matches_category n) demo_graph) CATEGORIES)
   \<and> seed_categories demo_graph =
     [\<lparr>labels = [''Post''], props = [(''id'', ''p1'')]\<rparr>,
      \<lparr>labels = [''Category''], props = [(''name'', ''academics''), (''description'', ''Coursework'')]\<rparr>,
      \<lparr>labels = [''Category''],
       props = [(''name'', ''admissions''),
                (''description'', ''Applications, entrance tests, merit lists, scholarships, program selection'')]\<rparr>,
      \<lparr>labels = [''Category''],
       props = [(''name'', ''campus_life''),
                (''description'', ''Student life, events, hostel/food, facilities, clubs, sports, social activities'')]\<rparr>]
   \<and> seeded ''campus_life'' (seed_categories demo_graph)
   \<and> seeded ''academics'' (seed_categories demo_graph)
   \<and> seeded ''admissions'' (seed_categories demo_graph)
   \<and> 1 < length demo_graph
   \<and> ''name'' \<noteq> ''description''
   \<and> map_of (props (demo_graph ! 1)) ''description'' = Some ''Coursework''
   \<and> labels (seed_categories demo_graph ! 1) = labels (demo_graph ! 1)
   \<and> map_of (props (seed_categories demo_graph ! 1)) ''name'' = map_of (props (demo_graph ! 1)) ''name''
   \<and> map_of (props (seed_categories demo_graph ! 1)) ''description'' = Some ''Coursework''
   \<and> 2 < length demo_graph
   \<and> ''Category'' \<in> set (labels (demo_graph ! 2))
   \<and> map_of (props (demo_graph ! 2)) ''name'' = Some ''admissions''
   \<and> map_of CATEGORIES ''admissions'' =
       Some ''Applications, entrance tests, merit lists, scholarships, program selection''
   \<and> map_of (props (demo_graph ! 2)) ''description'' = None
   \<and> map_of (props (seed_categories demo_graph ! 2)) ''description'' =
       Some ''Applications, entrance tests, merit lists, scholarships, program selection''"
proof -
  note T1 = seed_categories_idempotent [where g = demo_graph and i = 1 and k = "''name''"
      and d = "''Coursework''"]
  note T2 = seed_categories_idempotent [where g = demo_graph and i = 2 and n = "''admissions''"
      and sd = "''Applications, entrance tests, merit lists, scholarships, program selection''"]
  have h1: "1 < length demo_graph" by (simp add: demo_graph_def)
  have h2: "map_of (props (demo_graph ! 1)) ''description'' = Some ''Coursework''"
    by (simp add: demo_graph_def)
  have h3: "''name'' \<noteq> ''description''" by simp
  have h4: "2 < length demo_graph" by (simp add: demo_graph_def)
  have h5: "''Category'' \<in> set (labels (demo_graph ! 2))" by (simp add: demo_graph_def)
  have h6: "map_of (props (demo_graph ! 2)) ''name'' = Some ''admissions''"
    by (simp add: demo_graph_def)
  have h7: "map_of CATEGORIES ''admissions'' =
       Some ''Applications, entrance tests, merit lists, scholarships, program selection''"
    by (simp add: CATEGORIES_def)
  have h8: "map_of (props (demo_graph ! 2)) ''description'' = None"
    by (simp add: demo_graph_def)
  from T1 have a: "seed_categories (seed_categories demo_graph) = seed_categories demo_graph"
    and a': "seed_categories demo_graph =
       map filled demo_graph @
       map (\<lambda>(n, d). category_row n d)
         (filter (\<lambda>(n, d). \<not> list_ex (matches_category n) demo_graph) CATEGORIES)"
    and b: "seeded ''campus_life'' (seed_categories demo_graph)"
    and c: "seeded ''academics'' (seed_categories demo_graph)"
    and d: "seeded ''admissions'' (seed_categories demo_graph)"
    by blast+
  from T1 h1 have f: "labels (seed_categories demo_graph ! 1) = labels (demo_graph ! 1)"
    by blast
  from T1 h1 h3 have g: "map_of (props (seed_categories demo_graph ! 1)) ''name'' =
      map_of (props (demo_graph ! 1)) ''name''"
    by blast
  from T1 h1 h2 have h: "map_of (props (seed_categories demo_graph ! 1)) ''description'' =
      Some ''Coursework''"
    by blast
  from T2 h4 h5 h6 h7 h8 have j: "map_of (props (seed_categories demo_graph ! 2)) ''description'' =
       Some ''Applications, entrance tests, merit lists, scholarships, program selection''"
    by blast
  from a a' demo_graph_seeded b c d h1 h3 h2 f g h h4 h5 h6 h7 h8 j show ?thesis by (intro conjI)
qed

end
